theory Spec2Isabelle
  imports Complex_Main "HOL-Library.Sublist"
begin

section \<open>Data model\<close>

text \<open>
  The embedding follows the multi-task betting engine (the component \<open>SimulatedBetting\<close>
  with the \<open>AI_KELLY\<close> strategy and the global scan modes), and \<open>placeBet\<close> of the
  single-strategy generation of the same component.

  Block heights, counters and indices are \<open>int\<close>. Money is a JavaScript number, an
  IEEE double: its values are rationals (\<open>rat\<close>), and every sum, difference, product
  and quotient of money is rounded to the nearest double by \<open>dbl\<close> (section
  ``Double arithmetic''), in the order in which the source evaluates it. This covers
  payouts, the balance updates of settlement and placement, the task statistics, the
  progressions and the Kelly stake. Two computations are written without rounding: the
  profit of the global stop test and the ratios of the heuristic predictor.
  \<open>Math.floor\<close> is \<open>\<lfloor>_\<rfloor>\<close>. The IEEE special values (\<open>NaN\<close>, \<open>Infinity\<close>) have no
  counterpart; the places where the source can produce them are marked at the definition
  concerned.

  The string unions \<open>'ODD' | 'EVEN'\<close> (a block's \<open>type\<close>), \<open>'BIG' | 'SMALL'\<close> (its
  \<open>sizeType\<close>) and \<open>BetTarget\<close> are compared with \<open>===\<close> in the source, so they share one
  datatype here.
\<close>

datatype BetTarget = ODD | EVEN | BIG | SMALL

datatype BetType = PARITY | SIZE

datatype BetStatus = PENDING | WIN | LOSS

datatype StrategyType =
  MANUAL | MARTINGALE | DALEMBERT | FLAT | FIBONACCI | PAROLI | S1326 | CUSTOM | AI_KELLY

datatype AutoTargetMode =
  FIXED_ODD | FIXED_EVEN | FIXED_BIG | FIXED_SMALL | FOLLOW_LAST | REVERSE_LAST
  | GLOBAL_TREND_DRAGON | GLOBAL_BEAD_DRAGON | AI_PREDICTION | GLOBAL_AI_FULL_SCAN

text \<open>\<open>BlockData\<close>: only the fields the engine reads (\<open>height\<close>, \<open>type\<close>, \<open>sizeType\<close>).\<close>

record BlockData =
  height :: int
  btype :: BetTarget
  sizeType :: BetTarget

text \<open>\<open>IntervalRule\<close>: \<open>id\<close>, \<open>value\<close> (the step), \<open>startBlock\<close> (the offset), \<open>beadRows\<close>.\<close>

record IntervalRule =
  rule_id :: string
  rule_value :: int
  startBlock :: int
  beadRows :: int

text \<open>
  \<open>BetRecord\<close> without its display fields (\<open>id\<close>, \<open>timestamp\<close>, \<open>ruleName\<close>, \<open>taskName\<close>,
  \<open>resultVal\<close>, \<open>strategyLabel\<close>), which no engine decision reads. \<open>taskId\<close> is optional in
  the source.
\<close>

record BetRecord =
  taskId :: "string option"
  ruleId :: string
  targetHeight :: int
  betType :: BetType
  prediction :: BetTarget
  amount :: rat
  odds :: rat
  status :: BetStatus
  payout :: rat
  balanceAfter :: rat

record SimConfig =
  initialBalance :: rat
  cfg_odds :: rat
  stopLoss :: rat
  takeProfit :: rat
  cfg_baseBet :: rat

record StrategyConfig =
  stype :: StrategyType
  autoTarget :: AutoTargetMode
  targetType :: BetType
  multiplier :: rat
  maxCycle :: int
  step :: rat
  minStreak :: int
  customSequence :: "rat list option"
  kellyFraction :: "rat option"

record StrategyState =
  consecutiveLosses :: int
  currentBetAmount :: rat
  sequenceIndex :: int

record TaskStats =
  wins :: int
  losses :: int
  profit :: rat
  maxProfit :: rat
  maxLoss :: rat
  totalBetAmount :: rat
  peakProfit :: rat
  maxDrawdown :: rat

record AutoTask =
  task_id :: string
  task_ruleId :: string
  config :: StrategyConfig
  baseBet :: rat
  state :: StrategyState
  isActive :: bool
  stats :: TaskStats

record GlobalMetrics =
  peakBalance :: rat
  gm_maxDrawdown :: rat

section \<open>Rule alignment\<close>

text \<open>
  JavaScript's \<open>%\<close> truncates towards zero. For a zero divisor it yields \<open>NaN\<close>; the
  callers below guard the divisor.
\<close>

definition jsRem :: "int \<Rightarrow> int \<Rightarrow> int" where
  "jsRem a b = sgn a * (\<bar>a\<bar> mod \<bar>b\<bar>)"

text \<open>
  \<open>getNextTargetHeight (currentHeight, step, startBlock)\<close>. For \<open>step > 1\<close> the quotient
  \<open>Math.floor (diff / step)\<close> of two integers is \<open>div\<close> on \<open>int\<close>.
\<close>

definition getNextTargetHeight :: "int \<Rightarrow> int \<Rightarrow> int \<Rightarrow> int" where
  "getNextTargetHeight currentHeight stp startBlk =
    (let offset = startBlk in
     if stp \<le> 1 then currentHeight + 1
     else
       let diff = currentHeight - offset;
           nextMultiplier = diff div stp + 1;
           nextHeight = offset + nextMultiplier * stp
       in if nextHeight > currentHeight then nextHeight else nextHeight + stp)"

definition checkRuleAlignment :: "int \<Rightarrow> IntervalRule \<Rightarrow> bool" where
  "checkRuleAlignment h rule =
    (if rule_value rule \<le> 1 then True
     else if startBlock rule > 0
       then h \<ge> startBlock rule \<and> jsRem (h - startBlock rule) (rule_value rule) = 0
     else jsRem h (rule_value rule) = 0)"

section \<open>Double arithmetic\<close>

text \<open>
  A JavaScript arithmetic operation returns the exact result rounded to the nearest
  IEEE binary64 number, ties to the even significand. For a non-zero rational \<open>x\<close> with
  \<open>2 ^ e \<le> \<bar>x\<bar> < 2 ^ (e + 1)\<close> the doubles around \<open>x\<close> are the multiples of
  \<open>2 ^ (e - 52)\<close>, so the rounded value is that quantum times the nearest integer to
  the quotient. Overflow and the subnormal range (magnitudes from \<open>2 ^ 1024\<close> and below
  \<open>2 ^ -1022\<close>) are outside the model.
\<close>

text \<open>The number of binary digits of a natural number.\<close>

fun bitLength :: "nat \<Rightarrow> nat" where
  "bitLength n = (if n = 0 then 0 else Suc (bitLength (n div 2)))"

declare bitLength.simps [simp del]

definition pow2 :: "int \<Rightarrow> rat" where
  "pow2 e = (if 0 \<le> e then 2 ^ nat e else 1 / 2 ^ nat (- e))"

text \<open>The binary exponent \<open>\<lfloor>log\<^sub>2 x\<rfloor>\<close> of a positive rational.\<close>

definition ilog2 :: "rat \<Rightarrow> int" where
  "ilog2 x =
    (if 1 \<le> x then int (bitLength (nat \<lfloor>x\<rfloor>)) - 1
     else (let y = 1 / x; k = int (bitLength (nat \<lfloor>y\<rfloor>)) - 1
           in if y = pow2 k then - k else - k - 1))"

definition roundHalfEven :: "rat \<Rightarrow> int" where
  "roundHalfEven x =
    (let f = \<lfloor>x\<rfloor>; d = x - of_int f
     in if d < 1 / 2 then f
        else if d > 1 / 2 then f + 1
        else if even f then f else f + 1)"

definition dbl :: "rat \<Rightarrow> rat" where
  "dbl x =
    (if x = 0 then 0
     else (let e = ilog2 \<bar>x\<bar>; q = pow2 (e - 52)
           in sgn x * (of_int (roundHalfEven (\<bar>x\<bar> / q)) * q)))"

section \<open>Streaks and the heuristic predictor\<close>

definition blockKey :: "BetType \<Rightarrow> BlockData \<Rightarrow> BetTarget" where
  "blockKey t b = (if t = PARITY then btype b else sizeType b)"

text \<open>
  \<open>calculateStreak\<close> returns \<open>{val, count}\<close>; \<open>val\<close> is \<open>null\<close> exactly for the empty list.
  The \<open>for\<close> loop with \<open>break\<close> counts the longest prefix that agrees with the first block.
\<close>

definition calculateStreak :: "BlockData list \<Rightarrow> BetType \<Rightarrow> BetTarget option \<times> int" where
  "calculateStreak blocks t =
    (case blocks of
       [] \<Rightarrow> (None, 0)
     | b0 # _ \<Rightarrow>
         (Some (blockKey t b0),
          int (length (takeWhile (\<lambda>b. blockKey t b = blockKey t b0) blocks))))"

record AIAnalysis =
  shouldPredict :: bool
  nextP :: "BetTarget option"
  confP :: int
  nextS :: "BetTarget option"
  confS :: int

definition getBayesianConf :: "rat \<Rightarrow> int" where
  "getBayesianConf bias =
    (let deviation = \<bar>bias - 1 / 2\<bar> in
     if deviation > 18 / 100 then 94
     else if deviation > 12 / 100 then 88
     else 50)"

definition firstIs :: "char \<Rightarrow> string \<Rightarrow> bool" where
  "firstIs c seq = (case seq of [] \<Rightarrow> False | x # _ \<Rightarrow> x = c)"

text \<open>\<open>checkPeriodicity\<close> and \<open>checkDensity\<close> return \<open>{match, val, conf}\<close>.\<close>

definition checkPeriodicity :: "string \<Rightarrow> bool \<times> BetTarget option \<times> int" where
  "checkPeriodicity seq =
    (if prefix ''OEOEOE'' seq \<or> prefix ''EOEOEO'' seq
       then (True, Some (if firstIs CHR ''O'' seq then EVEN else ODD), 93)
     else if prefix ''OOEEOO'' seq \<or> prefix ''EEOOEE'' seq
       then (True, Some (if firstIs CHR ''O'' seq then EVEN else ODD), 91)
     else if prefix ''BSBSBS'' seq \<or> prefix ''SBSBSB'' seq
       then (True, Some (if firstIs CHR ''B'' seq then SMALL else BIG), 93)
     else if prefix ''BBSSBB'' seq \<or> prefix ''SSBBSS'' seq
       then (True, Some (if firstIs CHR ''B'' seq then SMALL else BIG), 91)
     else (False, None, 0))"

definition checkDensity :: "string \<Rightarrow> bool \<times> BetTarget option \<times> int" where
  "checkDensity seq =
    (if prefix ''OOOO'' seq then (True, Some ODD, 95)
     else if prefix ''EEEE'' seq then (True, Some EVEN, 95)
     else if prefix ''BBBB'' seq then (True, Some BIG, 95)
     else if prefix ''SSSS'' seq then (True, Some SMALL, 95)
     else (False, None, 0))"

text \<open>
  One axis of \<open>runAIAnalysis\<close>: the \<open>if / else if\<close> chain that sets \<open>(nextP, confP)\<close>,
  respectively \<open>(nextS, confS)\<close>, from the initial \<open>(null, 50)\<close>. \<open>hi\<close> is the outcome
  predicted when the bias exceeds one half and \<open>lo\<close> the other one.
\<close>

definition axisSignal :: "string \<Rightarrow> rat \<Rightarrow> BetTarget \<Rightarrow> BetTarget \<Rightarrow> BetTarget option \<times> int" where
  "axisSignal seq bias hi lo =
    (let period = checkPeriodicity seq;
         density = checkDensity seq;
         bayesConf = getBayesianConf bias
     in if fst period then (fst (snd period), snd (snd period))
        else if fst density then (fst (snd density), snd (snd density))
        else if bayesConf > 90 then (Some (if bias > 1 / 2 then hi else lo), bayesConf)
        else (None, 50))"

text \<open>\<open>Math.round\<close> rounds half up.\<close>

definition mathRound :: "rat \<Rightarrow> int" where
  "mathRound x = \<lfloor>x + 1 / 2\<rfloor>"

text \<open>
  \<open>runAIAnalysis (blocks, rule)\<close>. The value of the one call of \<open>Math.random ()\<close> is the
  extra argument \<open>random\<close>; the source draws it from \<open>[0, 1)\<close>. The inner \<open>checkAlignment\<close>
  repeats \<open>checkRuleAlignment\<close> line by line.
\<close>

definition runAIAnalysis :: "BlockData list \<Rightarrow> IntervalRule \<Rightarrow> rat \<Rightarrow> AIAnalysis" where
  "runAIAnalysis blocks rule random =
    (let ruleBlocks = take 80 (filter (\<lambda>b. checkRuleAlignment (height b) rule) blocks) in
     if length ruleBlocks < 24
       then \<lparr>shouldPredict = False, nextP = None, confP = 0, nextS = None, confS = 0\<rparr>
     else
       let pSeq = map (\<lambda>b. if btype b = ODD then CHR ''O'' else CHR ''E'') (take 12 ruleBlocks);
           sSeq = map (\<lambda>b. if sizeType b = BIG then CHR ''B'' else CHR ''S'') (take 12 ruleBlocks);
           oddCount = length (filter (\<lambda>b. btype b = ODD) ruleBlocks);
           bigCount = length (filter (\<lambda>b. sizeType b = BIG) ruleBlocks);
           pBias = of_nat oddCount / of_nat (length ruleBlocks);
           sBias = of_nat bigCount / of_nat (length ruleBlocks);
           p = axisSignal pSeq pBias EVEN ODD;
           s = axisSignal sSeq sBias SMALL BIG;
           excl =
             (if snd p > snd s then (p, (None, 0))
              else if snd s > snd p then ((None, 0), s)
              else if snd p \<ge> 90 then (p, (None, 0))
              else ((None, 0), (None, 0)));
           nP = fst (fst excl); cP = snd (fst excl);
           nS = fst (snd excl); cS = snd (snd excl);
           entropy = mathRound (random * 20 + 10);
           should = ((cP \<ge> 92 \<or> cS \<ge> 92) \<and> entropy < 40)
       in \<lparr>shouldPredict = should, nextP = nP, confP = cP, nextS = nS, confS = cS\<rparr>)"

section \<open>Staking progressions\<close>

definition FIB_SEQ :: "rat list" where
  "FIB_SEQ = [1, 1, 2, 3, 5, 8, 13, 21, 34, 55, 89, 144, 233, 377, 610]"

definition SEQ_1326 :: "rat list" where
  "SEQ_1326 = [1, 3, 2, 6]"

text \<open>
  \<open>seq[i]\<close>. Out of range JavaScript yields \<open>undefined\<close> and the product with the base
  stake is \<open>NaN\<close>, which the model cannot hold; that read is written as \<open>0\<close> here. The
  indices computed by the progressions below stay in range except for an empty custom
  sequence.
\<close>

definition seqAt :: "rat list \<Rightarrow> int \<Rightarrow> rat" where
  "seqAt xs i = (if 0 \<le> i \<and> nat i < length xs then xs ! nat i else 0)"

text \<open>
  The \<open>switch (task.config.type)\<close> of the settlement pass, with the final
  \<open>Math.floor (currentBetAmount)\<close>; the \<open>AI_KELLY\<close> branch resets the state to the base.
\<close>

definition advanceState :: "AutoTask \<Rightarrow> bool \<Rightarrow> StrategyState" where
  "advanceState task isWin =
    (let c = config task; st = state task; base = baseBet task;
         cba = currentBetAmount st; cl = consecutiveLosses st; si = sequenceIndex st
     in if stype c \<noteq> AI_KELLY then
       (let r =
          (case stype c of
             MARTINGALE \<Rightarrow>
               (if \<not> isWin then
                  (let nextLosses = cl + 1 in
                   if nextLosses \<ge> maxCycle c then (base, 0, si)
                   else (dbl (cba * multiplier c), nextLosses, si))
                else (base, 0, si))
           | DALEMBERT \<Rightarrow>
               (if \<not> isWin then (dbl (cba + step c), cl + 1, si)
                else (let a = dbl (cba - step c) in (if a < base then base else a, 0, si)))
           | FIBONACCI \<Rightarrow>
               (let si' = (if \<not> isWin then min (si + 1) (int (length FIB_SEQ) - 1)
                           else max 0 (si - 2))
                in (dbl (base * seqAt FIB_SEQ si'), cl, si'))
           | PAROLI \<Rightarrow>
               (if isWin then
                  (let si' = si + 1 in
                   if si' \<ge> 3 then (base, cl, 0) else (dbl (cba * 2), cl, si'))
                else (base, cl, 0))
           | S1326 \<Rightarrow>
               (if isWin then
                  (let si' = si + 1 in
                   if si' \<ge> int (length SEQ_1326) then (base, cl, 0)
                   else (dbl (base * seqAt SEQ_1326 si'), cl, si'))
                else (base, cl, 0))
           | CUSTOM \<Rightarrow>
               (let cSeq = (case customSequence c of None \<Rightarrow> [1] | Some xs \<Rightarrow> xs);
                    si' = (if \<not> isWin then
                             (if si + 1 \<ge> int (length cSeq) then 0 else si + 1)
                           else 0)
                in (dbl (base * seqAt cSeq si'), cl, si'))
           | _ \<Rightarrow> (base, cl, si))
        in \<lparr>consecutiveLosses = fst (snd r),
            currentBetAmount = of_int \<lfloor>fst r\<rfloor>,
            sequenceIndex = snd (snd r)\<rparr>)
     else \<lparr>consecutiveLosses = 0, currentBetAmount = base, sequenceIndex = 0\<rparr>)"

section \<open>The engine cycle: settlement\<close>

text \<open>
  The component state the engine effect reads and commits: \<open>balance\<close>, \<open>bets\<close> (newest
  first), \<open>tasks\<close> and \<open>globalMetrics\<close>.
\<close>

record SimState =
  balance :: rat
  bets :: "BetRecord list"
  tasks :: "AutoTask list"
  globalMetrics :: GlobalMetrics

text \<open>The local variables of one run of the effect that the settlement pass updates.\<close>

record Cycle =
  currentBalance :: rat
  tempPeak :: rat
  tempMaxDD :: rat
  nextTasks :: "AutoTask list"
  betsChanged :: bool
  tasksChanged :: bool
  metricsChanged :: bool

fun findIndex :: "('a \<Rightarrow> bool) \<Rightarrow> 'a list \<Rightarrow> nat option" where
  "findIndex P [] = None"
| "findIndex P (x # xs) = (if P x then Some 0 else map_option Suc (findIndex P xs))"

text \<open>The truthiness test \<open>if (bet.taskId)\<close>: \<open>undefined\<close> and the empty string are falsy.\<close>

definition truthyId :: "string option \<Rightarrow> bool" where
  "truthyId t = (case t of None \<Rightarrow> False | Some i \<Rightarrow> i \<noteq> [])"

text \<open>The statistics block of the settlement pass (\<open>// Update Stats\<close> to the drawdown).\<close>

definition updateStats :: "TaskStats \<Rightarrow> BetRecord \<Rightarrow> bool \<Rightarrow> rat \<Rightarrow> TaskStats" where
  "updateStats st bet isWin pay =
    (let sessionProfit = dbl ((if isWin then pay else 0) - amount bet);
         newTotalProfit = dbl (profit st + sessionProfit);
         peak = max (peakProfit st) newTotalProfit;
         taskDD = dbl (peak - newTotalProfit)
     in \<lparr>wins = wins st + (if isWin then 1 else 0),
         losses = losses st + (if isWin then 0 else 1),
         profit = newTotalProfit,
         maxProfit = max (maxProfit st) newTotalProfit,
         maxLoss = min (maxLoss st) newTotalProfit,
         totalBetAmount = dbl (totalBetAmount st + amount bet),
         peakProfit = peak,
         maxDrawdown = max (maxDrawdown st) taskDD\<rparr>)"

definition settleTask :: "AutoTask \<Rightarrow> BetRecord \<Rightarrow> bool \<Rightarrow> rat \<Rightarrow> AutoTask" where
  "settleTask task bet isWin pay =
    task\<lparr>stats := updateStats (stats task) bet isWin pay, state := advanceState task isWin\<rparr>"

text \<open>
  The body of \<open>bets.map (bet => ...)\<close> for one wager: the updated locals and the wager
  the callback returns.
\<close>

definition settleBet :: "BlockData list \<Rightarrow> Cycle \<Rightarrow> BetRecord \<Rightarrow> Cycle \<times> BetRecord" where
  "settleBet allBlocks c bet =
    (if status bet = PENDING then
       (case find (\<lambda>b. height b = targetHeight bet) allBlocks of
          None \<Rightarrow> (c, bet)
        | Some targetBlock \<Rightarrow>
            (let isWin = (if betType bet = PARITY then btype targetBlock = prediction bet
                          else sizeType targetBlock = prediction bet);
                 pay = (if isWin then dbl (amount bet * odds bet) else 0);
                 cb = dbl (currentBalance c + pay);
                 peak = (if cb > tempPeak c then cb else tempPeak c);
                 currentDD = dbl (peak - cb);
                 ddHit = (currentDD > tempMaxDD c);
                 owner = (if truthyId (taskId bet)
                          then findIndex (\<lambda>t. Some (task_id t) = taskId bet) (nextTasks c)
                          else None)
             in (c\<lparr>currentBalance := cb,
                    tempPeak := peak,
                    tempMaxDD := (if ddHit then currentDD else tempMaxDD c),
                    metricsChanged := (ddHit \<or> metricsChanged c),
                    betsChanged := True,
                    tasksChanged := (owner \<noteq> None \<or> tasksChanged c),
                    nextTasks :=
                      (case owner of
                         None \<Rightarrow> nextTasks c
                       | Some i \<Rightarrow> (nextTasks c)[i := settleTask (nextTasks c ! i) bet isWin pay])\<rparr>,
                 bet\<lparr>status := (if isWin then WIN else LOSS),
                      payout := pay,
                      balanceAfter := cb\<rparr>)))
     else (c, bet))"

fun settleBets :: "BlockData list \<Rightarrow> Cycle \<Rightarrow> BetRecord list \<Rightarrow> Cycle \<times> BetRecord list" where
  "settleBets allBlocks c [] = (c, [])"
| "settleBets allBlocks c (bet # rest) =
    (let r = settleBet allBlocks c bet;
         rs = settleBets allBlocks (fst r) rest
     in (fst rs, snd r # snd rs))"

definition startCycle :: "SimState \<Rightarrow> Cycle" where
  "startCycle s =
    \<lparr>currentBalance = balance s,
     tempPeak = peakBalance (globalMetrics s),
     tempMaxDD = gm_maxDrawdown (globalMetrics s),
     nextTasks = tasks s,
     betsChanged = False,
     tasksChanged = False,
     metricsChanged = False\<rparr>"

section \<open>The engine cycle: stake sizing\<close>

text \<open>
  The block \<open>// AI KELLY CALCULATION\<close>, which the source repeats verbatim in the full
  scan, in the dragon modes (with the confidence fixed at 60) and for standard tasks;
  \<open>kellyFractionOf\<close> is \<open>task.config.kellyFraction || 0.2\<close>.

  Every operation is a double operation: \<open>b_odds = odds - 1\<close>, \<open>p = confidence / 100\<close>,
  \<open>q = 1 - p\<close>, \<open>f = (b_odds * p - q) / b_odds\<close>, and the product
  \<open>currentBalance * f * fraction\<close> is evaluated from the left before \<open>Math.floor\<close>.

  For \<open>odds = 1\<close> the quotient \<open>f\<close> is \<open>-Infinity\<close> or \<open>NaN\<close> in the source (every confidence
  the engine passes is at most 100), so \<open>f > 0\<close> is false there; \<open>x / 0 = 0\<close> in HOL
  selects the same branch.
\<close>

definition kellyF :: "rat \<Rightarrow> rat \<Rightarrow> rat" where
  "kellyF oddsv confidence =
    (let b_odds = dbl (oddsv - 1); p = dbl (confidence / 100); q = dbl (1 - p)
     in dbl (dbl (dbl (b_odds * p) - q) / b_odds))"

definition kellyFractionOf :: "AutoTask \<Rightarrow> rat" where
  "kellyFractionOf task =
    (case kellyFraction (config task) of
       None \<Rightarrow> dbl (2 / 10)
     | Some k \<Rightarrow> if k = 0 then dbl (2 / 10) else k)"

definition kellyAmount :: "SimConfig \<Rightarrow> AutoTask \<Rightarrow> rat \<Rightarrow> rat \<Rightarrow> rat" where
  "kellyAmount cfg task confidence curBalance =
    (let f = kellyF (cfg_odds cfg) confidence;
         a = (if f > 0 then of_int \<lfloor>dbl (dbl (curBalance * f) * kellyFractionOf task)\<rfloor>
              else cfg_baseBet cfg);
         a = max (cfg_baseBet cfg) a;
         a = min a curBalance
     in a)"

text \<open>\<open>let amount = Math.floor (task.state.currentBetAmount)\<close>, then the Kelly override.\<close>

definition stakeAmount :: "SimConfig \<Rightarrow> AutoTask \<Rightarrow> rat \<Rightarrow> rat \<Rightarrow> rat" where
  "stakeAmount cfg task confidence curBalance =
    (let a = of_int \<lfloor>currentBetAmount (state task)\<rfloor> in
     if stype (config task) = AI_KELLY then kellyAmount cfg task confidence curBalance
     else a)"

section \<open>The engine cycle: placement\<close>

text \<open>
  The locals the placement pass updates: \<open>currentBalance\<close>, \<open>finalBets\<close> and the two
  change flags carried over from the settlement pass.
\<close>

record Placing =
  p_currentBalance :: rat
  finalBets :: "BetRecord list"
  p_betsChanged :: bool
  p_tasksChanged :: bool

text \<open>
  The three identical tails of the placement branches: build \<open>newBet\<close>, subtract the
  stake from \<open>currentBalance\<close>, \<open>finalBets.unshift (newBet)\<close>, set \<open>betsChanged\<close>.
\<close>

definition placeNew ::
  "SimConfig \<Rightarrow> AutoTask \<Rightarrow> IntervalRule \<Rightarrow> int \<Rightarrow> BetType \<Rightarrow> BetTarget \<Rightarrow> rat \<Rightarrow> Placing \<Rightarrow> Placing" where
  "placeNew cfg task rule h ty tg amt p =
    (let newBet =
       \<lparr>taskId = Some (task_id task), ruleId = rule_id rule, targetHeight = h,
        betType = ty, prediction = tg, amount = amt, odds = cfg_odds cfg,
        status = PENDING, payout = 0, balanceAfter = 0\<rparr>
     in p\<lparr>p_currentBalance := dbl (p_currentBalance p - amt),
           finalBets := newBet # finalBets p,
           p_betsChanged := True\<rparr>)"

text \<open>\<open>bestCandidate\<close>; \<open>score\<close> is its \<open>confidence\<close> (full scan) or \<open>streak\<close> (dragons).\<close>

record Candidate =
  score :: int
  cand_rule :: "IntervalRule option"
  cand_type :: BetType
  cand_target :: BetTarget
  cand_height :: int

definition noCandidate :: Candidate where
  "noCandidate =
    \<lparr>score = 0, cand_rule = None, cand_type = PARITY, cand_target = ODD, cand_height = 0\<rparr>"

text \<open>
  The callback of \<open>rules.forEach\<close> in the full scan. \<open>curH\<close> is \<open>allBlocks[0].height\<close>,
  which the engine reads only after its check that \<open>allBlocks\<close> is not empty.
\<close>

definition scanRule :: "BlockData list \<Rightarrow> int \<Rightarrow> rat \<Rightarrow> Candidate \<Rightarrow> IntervalRule \<Rightarrow> Candidate" where
  "scanRule allBlocks curH random best rule =
    (let analysis = runAIAnalysis allBlocks rule random in
     if \<not> shouldPredict analysis then best
     else
       let nextH = getNextTargetHeight curH (rule_value rule) (startBlock rule);
           best1 =
             (case nextP analysis of
                Some t \<Rightarrow>
                  if confP analysis > score best
                  then \<lparr>score = confP analysis, cand_rule = Some rule, cand_type = PARITY,
                        cand_target = t, cand_height = nextH\<rparr>
                  else best
              | None \<Rightarrow> best);
           best2 =
             (case nextS analysis of
                Some t \<Rightarrow>
                  if confS analysis > score best1
                  then \<lparr>score = confS analysis, cand_rule = Some rule, cand_type = SIZE,
                        cand_target = t, cand_height = nextH\<rparr>
                  else best1
              | None \<Rightarrow> best1)
       in best2)"

text \<open>\<open>random i\<close> is the draw of the call of \<open>runAIAnalysis\<close> for the \<open>i\<close>-th rule.\<close>

fun scanRules ::
  "BlockData list \<Rightarrow> int \<Rightarrow> (nat \<Rightarrow> rat) \<Rightarrow> nat \<Rightarrow> Candidate \<Rightarrow> IntervalRule list \<Rightarrow> Candidate" where
  "scanRules allBlocks curH random i best [] = best"
| "scanRules allBlocks curH random i best (rule # rs) =
    scanRules allBlocks curH random (Suc i) (scanRule allBlocks curH (random i) best rule) rs"

text \<open>
  One streak test of the dragon modes. \<open>val\<close> is \<open>null\<close> only for an empty list, for which
  \<open>count = 0\<close> never exceeds \<open>bestCandidate.streak\<close>.
\<close>

definition betterStreak ::
  "BetTarget option \<times> int \<Rightarrow> IntervalRule \<Rightarrow> BetType \<Rightarrow> int \<Rightarrow> Candidate \<Rightarrow> Candidate" where
  "betterStreak streak rule ty nextH best =
    (case fst streak of
       Some v \<Rightarrow> \<lparr>score = snd streak, cand_rule = Some rule, cand_type = ty,
                  cand_target = v, cand_height = nextH\<rparr>
     | None \<Rightarrow> best)"

definition trendRule :: "BlockData list \<Rightarrow> int \<Rightarrow> Candidate \<Rightarrow> IntervalRule \<Rightarrow> Candidate" where
  "trendRule allBlocks curH best rule =
    (let ruleBlocks = filter (\<lambda>b. checkRuleAlignment (height b) rule) allBlocks in
     if ruleBlocks = [] then best
     else
       let nextH = getNextTargetHeight curH (rule_value rule) (startBlock rule);
           pStreak = calculateStreak ruleBlocks PARITY;
           best1 = (if snd pStreak > score best
                    then betterStreak pStreak rule PARITY nextH best else best);
           sStreak = calculateStreak ruleBlocks SIZE;
           best2 = (if snd sStreak > score best1
                    then betterStreak sStreak rule SIZE nextH best1 else best1)
       in best2)"

text \<open>
  \<open>getBeadRowBlocks\<close>. A zero \<open>interval\<close> makes \<open>logicalIdx\<close> infinite or \<open>NaN\<close> and the
  comparison with \<open>rowIdx\<close> false. The comparator \<open>b.height - a.height\<close> sorts by
  descending height and the sort is stable.
\<close>

definition beadRowsOf :: "IntervalRule \<Rightarrow> int" where
  "beadRowsOf rule = (if beadRows rule = 0 then 6 else beadRows rule)"

definition getBeadRowBlocks :: "BlockData list \<Rightarrow> IntervalRule \<Rightarrow> int \<Rightarrow> BlockData list" where
  "getBeadRowBlocks blocks rule rowIdx =
    (let epoch = startBlock rule; interval = rule_value rule; rows = beadRowsOf rule in
     sort_key (\<lambda>b. - height b)
       (filter (\<lambda>b.
          (if rule_value rule > 1 \<and>
              ((startBlock rule > 0 \<and> height b < startBlock rule)
               \<or> (startBlock rule > 0 \<and> jsRem (height b - startBlock rule) (rule_value rule) \<noteq> 0)
               \<or> (startBlock rule = 0 \<and> jsRem (height b) (rule_value rule) \<noteq> 0))
           then False
           else interval \<noteq> 0 \<and> jsRem ((height b - epoch) div interval) rows = rowIdx))
        blocks))"

definition beadRow ::
  "BlockData list \<Rightarrow> int \<Rightarrow> IntervalRule \<Rightarrow> Candidate \<Rightarrow> int \<Rightarrow> Candidate" where
  "beadRow allBlocks curH rule best r =
    (case getBeadRowBlocks allBlocks rule r of
       [] \<Rightarrow> best
     | rb0 # rbs \<Rightarrow>
         (let rowBlocks = rb0 # rbs;
              nextH = height rb0 + rule_value rule * beadRowsOf rule;
              pStreak = calculateStreak rowBlocks PARITY;
              best1 = (if snd pStreak > score best \<and> nextH > curH
                       then betterStreak pStreak rule PARITY nextH best else best);
              sStreak = calculateStreak rowBlocks SIZE;
              best2 = (if snd sStreak > score best1 \<and> nextH > curH
                       then betterStreak sStreak rule SIZE nextH best1 else best1)
          in best2))"

definition dragonRule ::
  "AutoTargetMode \<Rightarrow> BlockData list \<Rightarrow> int \<Rightarrow> Candidate \<Rightarrow> IntervalRule \<Rightarrow> Candidate" where
  "dragonRule mode allBlocks curH best rule =
    (if mode = GLOBAL_TREND_DRAGON then trendRule allBlocks curH best rule
     else if mode = GLOBAL_BEAD_DRAGON
       then foldl (beadRow allBlocks curH rule) best (map int [0 ..< nat (beadRowsOf rule)])
     else best)"

text \<open>The \<open>// Determine Bet\<close> part of a standard task: \<open>(type, target, currentConfidence)\<close>
  when \<open>shouldBet\<close> is set.\<close>

definition decideBet ::
  "BlockData list \<Rightarrow> IntervalRule \<Rightarrow> rat \<Rightarrow> AutoTask \<Rightarrow> (BetType \<times> BetTarget \<times> rat) option" where
  "decideBet allBlocks rule random task =
    (let ruleBlocks = filter (\<lambda>b. checkRuleAlignment (height b) rule) allBlocks;
         mode = autoTarget (config task)
     in if mode = AI_PREDICTION then
          (let analysis = runAIAnalysis allBlocks rule random in
           if shouldPredict analysis then
             (case (confP analysis \<ge> confS analysis \<and> confP analysis \<ge> 92, nextP analysis) of
                (True, Some t) \<Rightarrow> Some (PARITY, t, of_int (confP analysis))
              | _ \<Rightarrow>
                (case (confS analysis > confP analysis \<and> confS analysis \<ge> 92, nextS analysis) of
                   (True, Some t) \<Rightarrow> Some (SIZE, t, of_int (confS analysis))
                 | _ \<Rightarrow> None))
           else None)
        else if mode = FIXED_ODD then Some (PARITY, ODD, 60)
        else if mode = FIXED_EVEN then Some (PARITY, EVEN, 60)
        else if mode = FIXED_BIG then Some (SIZE, BIG, 60)
        else if mode = FIXED_SMALL then Some (SIZE, SMALL, 60)
        else if ruleBlocks \<noteq> [] then
          (let tt = targetType (config task);
               streak = calculateStreak ruleBlocks tt
           in if mode = FOLLOW_LAST then
                (if snd streak \<ge> minStreak (config task)
                 then map_option (\<lambda>v. (tt, v, 60)) (fst streak) else None)
              else if mode = REVERSE_LAST then
                (if snd streak \<ge> minStreak (config task)
                 then Some (tt,
                            (if tt = PARITY then (if fst streak = Some ODD then EVEN else ODD)
                             else (if fst streak = Some BIG then SMALL else BIG)),
                            60)
                 else None)
              else None)
        else None)"

definition hasPending :: "AutoTask \<Rightarrow> BetRecord list \<Rightarrow> bool" where
  "hasPending task bs = list_ex (\<lambda>b. taskId b = Some (task_id task) \<and> status b = PENDING) bs"

text \<open>The duplicate test every placement branch applies to \<open>finalBets\<close>.\<close>

definition isDupe :: "AutoTask \<Rightarrow> string \<Rightarrow> int \<Rightarrow> BetRecord list \<Rightarrow> bool" where
  "isDupe task rid h bs =
    list_ex (\<lambda>b. targetHeight b = h \<and> ruleId b = rid \<and> taskId b = Some (task_id task)) bs"

definition placeCandidate ::
  "SimConfig \<Rightarrow> AutoTask \<Rightarrow> Candidate \<Rightarrow> rat \<Rightarrow> Placing \<Rightarrow> Placing" where
  "placeCandidate cfg task best confidence p =
    (case cand_rule best of
       None \<Rightarrow> p
     | Some rule \<Rightarrow>
         if isDupe task (rule_id rule) (cand_height best) (finalBets p) then p
         else placeNew cfg task rule (cand_height best) (cand_type best) (cand_target best)
                (stakeAmount cfg task confidence (p_currentBalance p)) p)"

definition fullScanTask ::
  "SimConfig \<Rightarrow> IntervalRule list \<Rightarrow> BlockData list \<Rightarrow> int \<Rightarrow> (nat \<Rightarrow> rat) \<Rightarrow> AutoTask \<Rightarrow> Placing \<Rightarrow> Placing" where
  "fullScanTask cfg rules allBlocks curH random task p =
    (if hasPending task (finalBets p) then p
     else
       let best = scanRules allBlocks curH random 0 noCandidate rules in
       if cand_rule best \<noteq> None \<and> score best \<ge> 94
       then placeCandidate cfg task best (of_int (score best)) p
       else p)"

definition dragonTask ::
  "SimConfig \<Rightarrow> IntervalRule list \<Rightarrow> BlockData list \<Rightarrow> int \<Rightarrow> AutoTask \<Rightarrow> Placing \<Rightarrow> Placing" where
  "dragonTask cfg rules allBlocks curH task p =
    (if hasPending task (finalBets p) then p
     else
       let best = foldl (dragonRule (autoTarget (config task)) allBlocks curH) noCandidate rules in
       if score best \<ge> minStreak (config task) \<and> cand_rule best \<noteq> None
       then placeCandidate cfg task best 60 p
       else p)"

definition standardTask ::
  "SimConfig \<Rightarrow> IntervalRule list \<Rightarrow> BlockData list \<Rightarrow> int \<Rightarrow> rat \<Rightarrow> AutoTask \<Rightarrow> Placing \<Rightarrow> Placing" where
  "standardTask cfg rules allBlocks curH random task p =
    (case find (\<lambda>r. rule_id r = task_ruleId task) rules of
       None \<Rightarrow> p
     | Some rule \<Rightarrow>
         (let nextHeight = getNextTargetHeight curH (rule_value rule) (startBlock rule) in
          if isDupe task (rule_id rule) nextHeight (finalBets p) then p
          else
            (case decideBet allBlocks rule random task of
               None \<Rightarrow> p
             | Some (ty, tg, currentConfidence) \<Rightarrow>
                 placeNew cfg task rule nextHeight ty tg
                   (stakeAmount cfg task currentConfidence (p_currentBalance p)) p)))"

text \<open>
  The callback of \<open>nextTasks.forEach\<close>: the task as the callback leaves it and the
  updated locals. \<open>random\<close> supplies the draws of this task's calls of \<open>runAIAnalysis\<close>.
\<close>

definition processTask ::
  "SimConfig \<Rightarrow> IntervalRule list \<Rightarrow> BlockData list \<Rightarrow> int \<Rightarrow> (nat \<Rightarrow> rat) \<Rightarrow> AutoTask \<Rightarrow> Placing
    \<Rightarrow> AutoTask \<times> Placing" where
  "processTask cfg rules allBlocks curH random task p =
    (if \<not> isActive task then (task, p)
     else if p_currentBalance p < baseBet task
       then (task\<lparr>isActive := False\<rparr>, p\<lparr>p_tasksChanged := True\<rparr>)
     else if autoTarget (config task) = GLOBAL_AI_FULL_SCAN
       then (task, fullScanTask cfg rules allBlocks curH random task p)
     else if autoTarget (config task) = GLOBAL_TREND_DRAGON
             \<or> autoTarget (config task) = GLOBAL_BEAD_DRAGON
       then (task, dragonTask cfg rules allBlocks curH task p)
     else (task, standardTask cfg rules allBlocks curH (random 0) task p))"

text \<open>\<open>random i\<close> supplies the draws for the \<open>i\<close>-th task of the list.\<close>

fun placeTasks ::
  "SimConfig \<Rightarrow> IntervalRule list \<Rightarrow> BlockData list \<Rightarrow> int \<Rightarrow> (nat \<Rightarrow> nat \<Rightarrow> rat) \<Rightarrow> nat \<Rightarrow> Placing
    \<Rightarrow> AutoTask list \<Rightarrow> AutoTask list \<times> Placing" where
  "placeTasks cfg rules allBlocks curH random i p [] = ([], p)"
| "placeTasks cfg rules allBlocks curH random i p (task # rest) =
    (let r = processTask cfg rules allBlocks curH (random i) task p;
         rs = placeTasks cfg rules allBlocks curH random (Suc i) (snd r) rest
     in (fst r # fst rs, snd rs))"

section \<open>The engine cycle\<close>

text \<open>
  The global stop test on \<open>profit = currentBalance - config.initialBalance\<close>. The
  difference is written without rounding; where it is not a double the source compares
  the nearest double with the two limits.
\<close>

definition globalStop :: "SimConfig \<Rightarrow> rat \<Rightarrow> bool" where
  "globalStop cfg curBalance =
    (let prof = curBalance - initialBalance cfg in
     (takeProfit cfg > 0 \<and> prof \<ge> takeProfit cfg)
     \<or> (stopLoss cfg > 0 \<and> prof \<le> - stopLoss cfg))"

text \<open>
  Step 2 of the effect, \<open>PROCESS ACTIVE TASKS\<close>: from the locals left by the settlement
  pass, either the placement loop over the tasks or, on a global stop, the deactivation
  of every task. It yields the task list and the placement locals.
\<close>

definition placementPass ::
  "SimConfig \<Rightarrow> IntervalRule list \<Rightarrow> BlockData list \<Rightarrow> int \<Rightarrow> (nat \<Rightarrow> nat \<Rightarrow> rat) \<Rightarrow> Cycle
    \<Rightarrow> BetRecord list \<Rightarrow> AutoTask list \<times> Placing" where
  "placementPass cfg rules allBlocks curH random c updatedBets =
    (let p0 = \<lparr>p_currentBalance = currentBalance c, finalBets = updatedBets,
               p_betsChanged = betsChanged c, p_tasksChanged = tasksChanged c\<rparr>
     in if \<not> globalStop cfg (currentBalance c)
          then placeTasks cfg rules allBlocks curH random 0 p0 (nextTasks c)
        else if list_ex isActive (nextTasks c)
          then (map (\<lambda>t. t\<lparr>isActive := False\<rparr>) (nextTasks c), p0\<lparr>p_tasksChanged := True\<rparr>)
        else (nextTasks c, p0))"

text \<open>
  The effect \<open>THE MULTI-THREAD ENGINE\<close>: the early return on an empty block window,
  settlement, placement, and the commit guarded by the change flags. The task objects
  are mutated in place, and every mutation sets \<open>tasksChanged\<close>.
\<close>

definition engine ::
  "SimConfig \<Rightarrow> IntervalRule list \<Rightarrow> BlockData list \<Rightarrow> (nat \<Rightarrow> nat \<Rightarrow> rat) \<Rightarrow> SimState \<Rightarrow> SimState" where
  "engine cfg rules allBlocks random s =
    (case allBlocks of
       [] \<Rightarrow> s
     | b0 # _ \<Rightarrow>
         (let r = settleBets allBlocks (startCycle s) (bets s);
              c = fst r;
              res = placementPass cfg rules allBlocks (height b0) random c (snd r);
              p = snd res
          in s\<lparr>bets := (if p_betsChanged p then finalBets p else bets s),
                balance := (if p_betsChanged p then p_currentBalance p else balance s),
                tasks := (if p_tasksChanged p then fst res else tasks s),
                globalMetrics :=
                  (if metricsChanged c \<or> tempPeak c \<noteq> peakBalance (globalMetrics s)
                   then \<lparr>peakBalance = tempPeak c, gm_maxDrawdown = tempMaxDD c\<rparr>
                   else globalMetrics s)\<rparr>))"

section \<open>The manual gateway\<close>

datatype BetSource = SRC_MANUAL | SRC_AUTO

text \<open>\<open>placeBet\<close> of the multi-task component: the returned flag and the new state.\<close>

definition placeBet ::
  "SimConfig \<Rightarrow> int \<Rightarrow> BetType \<Rightarrow> BetTarget \<Rightarrow> rat \<Rightarrow> BetSource \<Rightarrow> IntervalRule \<Rightarrow> string option
    \<Rightarrow> SimState \<Rightarrow> bool \<times> SimState" where
  "placeBet cfg targetH ty tg amt source rule tid s =
    (let isDuplicate =
       list_ex (\<lambda>b. targetHeight b = targetH \<and> ruleId b = rule_id rule
                    \<and> (if source = SRC_MANUAL then \<not> truthyId (taskId b) else taskId b = tid))
         (bets s)
     in if isDuplicate then (False, s)
        else
          (let newBet =
             \<lparr>taskId = tid, ruleId = rule_id rule, targetHeight = targetH,
              betType = ty, prediction = tg, amount = amt, odds = cfg_odds cfg,
              status = PENDING, payout = 0, balanceAfter = 0\<rparr>
           in (True, s\<lparr>balance := dbl (balance s - amt), bets := newBet # bets s\<rparr>)))"

text \<open>
  \<open>placeBet\<close> of the single-strategy component (\<open>components/SimulatedBetting.tsx\<close>), whose
  first statement is the balance test. It returns the flag, the new balance and ledger,
  and whether automatic betting keeps running; \<open>activeRule\<close> is the rule in force.
\<close>

definition placeBet_single ::
  "SimConfig \<Rightarrow> IntervalRule \<Rightarrow> int \<Rightarrow> BetType \<Rightarrow> BetTarget \<Rightarrow> rat \<Rightarrow> bool \<Rightarrow> rat
    \<Rightarrow> rat \<times> BetRecord list \<times> bool \<Rightarrow> bool \<times> rat \<times> BetRecord list \<times> bool" where
  "placeBet_single cfg activeRule targetH ty tg amt isAuto currentBal st =
    (case st of (bal, ledger, isAutoRunning) \<Rightarrow>
       if currentBal < amt then (False, bal, ledger, (if isAuto then False else isAutoRunning))
       else if list_ex (\<lambda>b. targetHeight b = targetH \<and> ruleId b = rule_id activeRule) ledger
         then (False, bal, ledger, isAutoRunning)
       else
         (let newBet =
            \<lparr>taskId = None, ruleId = rule_id activeRule, targetHeight = targetH,
             betType = ty, prediction = tg, amount = amt, odds = cfg_odds cfg,
             status = PENDING, payout = 0, balanceAfter = currentBal\<rparr>
          in (True, dbl (bal - amt), newBet # ledger, isAutoRunning)))"

section \<open>Task creation and the reachable states\<close>

text \<open>
  \<open>createTask\<close>: the task starts paused, with the stake at the base (times the first
  multiplier of a custom sequence) and empty statistics. \<open>tid\<close> stands for the
  time-derived \<open>id\<close>.
\<close>

definition createTask :: "SimConfig \<Rightarrow> StrategyConfig \<Rightarrow> string \<Rightarrow> string \<Rightarrow> AutoTask" where
  "createTask cfg draftConfig draftRuleId tid =
    \<lparr>task_id = tid,
     task_ruleId = draftRuleId,
     config = draftConfig,
     baseBet = cfg_baseBet cfg,
     state =
       \<lparr>consecutiveLosses = 0,
        currentBetAmount =
          (case (stype draftConfig = CUSTOM, customSequence draftConfig) of
             (True, Some xs) \<Rightarrow> dbl (cfg_baseBet cfg * seqAt xs 0)
           | _ \<Rightarrow> cfg_baseBet cfg),
        sequenceIndex = 0\<rparr>,
     isActive = False,
     stats = \<lparr>wins = 0, losses = 0, profit = 0, maxProfit = 0, maxLoss = 0,
              totalBetAmount = 0, peakProfit = 0, maxDrawdown = 0\<rparr>\<rparr>"

text \<open>
  The states the component reaches from a fresh account (the balance at its initial
  value, no wagers): by a manual wager (the buttons call \<open>placeBet\<close> with source
  \<open>MANUAL\<close> and no task id), by a run of the engine on any block window, or by the
  operator editing the task list (create, toggle, start or stop all, delete).
\<close>

inductive reachable :: "rat \<Rightarrow> SimState \<Rightarrow> bool" for init :: rat where
  fresh: "reachable init \<lparr>balance = init, bets = [], tasks = ts, globalMetrics = gm\<rparr>"
| manual: "reachable init s \<Longrightarrow>
    reachable init (snd (placeBet cfg h ty tg amt SRC_MANUAL rule None s))"
| cycle: "reachable init s \<Longrightarrow> reachable init (engine cfg rules allBlocks random s)"
| edit: "reachable init s \<Longrightarrow> reachable init (s\<lparr>tasks := ts\<rparr>)"

section \<open>Specification-side notions\<close>

text \<open>
  The replay, as the specification words it: starting from the initial balance the
  events are applied in the order in which they happened; the placement of a wager
  debits its stake, the settlement of a wager credits its payout, which is stake times
  the odds recorded at placement for a won wager and 0 for a lost one. The replay
  computes with the same double operations as the engine. An event names its wager:
  \<open>Placed\<close> the wager as it entered the ledger, \<open>Settled\<close> the wager as the settlement pass
  returned it.
\<close>

datatype LedgerEvent = Placed BetRecord | Settled BetRecord

definition replayPayout :: "BetRecord \<Rightarrow> rat" where
  "replayPayout w = (if status w = WIN then dbl (amount w * odds w) else 0)"

fun replayStep :: "rat \<Rightarrow> LedgerEvent \<Rightarrow> rat" where
  "replayStep bal (Placed w) = dbl (bal - amount w)"
| "replayStep bal (Settled w) = dbl (bal + replayPayout w)"

definition replayEvents :: "rat \<Rightarrow> LedgerEvent list \<Rightarrow> rat" where
  "replayEvents init evs = foldl replayStep init evs"

text \<open>The wagers placed and the wagers settled by a list of events, in order.\<close>

fun placedOf :: "LedgerEvent list \<Rightarrow> BetRecord list" where
  "placedOf [] = []"
| "placedOf (Placed w # evs) = w # placedOf evs"
| "placedOf (Settled w # evs) = placedOf evs"

fun settledOf :: "LedgerEvent list \<Rightarrow> BetRecord list" where
  "settledOf [] = []"
| "settledOf (Placed w # evs) = settledOf evs"
| "settledOf (Settled w # evs) = w # settledOf evs"

text \<open>
  The events of one step, read off the ledger before and after it. The ledger grows at
  its head, so the wagers of the old ledger are the tail of the new one: those that were
  pending and are settled now give the settlements, in ledger order, which is the order
  of the settlement pass; the new wagers at the head give the placements, oldest first.
  Settlement precedes placement within a step.
\<close>

fun settledEvents :: "BetRecord list \<Rightarrow> BetRecord list \<Rightarrow> LedgerEvent list" where
  "settledEvents (w # ws) (w' # ws') =
    (if status w = PENDING \<and> status w' \<noteq> PENDING then [Settled w'] else [])
    @ settledEvents ws ws'"
| "settledEvents ws ws' = []"

definition placedEvents :: "BetRecord list \<Rightarrow> LedgerEvent list" where
  "placedEvents new = map Placed (rev new)"

definition stepEvents :: "BetRecord list \<Rightarrow> BetRecord list \<Rightarrow> LedgerEvent list" where
  "stepEvents before after =
    (let n = length after - length before
     in settledEvents before (drop n after) @ placedEvents (take n after))"

text \<open>
  The histories of the component: \<open>history cfg0 cfg evs s\<close> says that an account that
  was fresh under the configuration \<open>cfg0\<close> (balance at \<open>initialBalance\<close>, no wagers, as
  \<open>resetAccount\<close> leaves it) has reached the state \<open>s\<close> under the current configuration
  \<open>cfg\<close>, and that \<open>evs\<close> are the events so far. The steps are a manual wager, a run of
  the engine under the current configuration, an edit of the task list, and an edit of
  the configuration through the inputs of the settings panel, which call \<open>setConfig\<close>
  and leave balance and ledger alone.
\<close>

inductive history :: "SimConfig \<Rightarrow> SimConfig \<Rightarrow> LedgerEvent list \<Rightarrow> SimState \<Rightarrow> bool"
  for cfg0 :: SimConfig where
  h_fresh: "balance s = initialBalance cfg0 \<Longrightarrow> bets s = [] \<Longrightarrow> history cfg0 cfg0 [] s"
| h_manual: "history cfg0 cfg evs s \<Longrightarrow>
    s' = snd (placeBet cfg h ty tg amt SRC_MANUAL rule None s) \<Longrightarrow>
    history cfg0 cfg (evs @ stepEvents (bets s) (bets s')) s'"
| h_cycle: "history cfg0 cfg evs s \<Longrightarrow>
    s' = engine cfg rules allBlocks random s \<Longrightarrow>
    history cfg0 cfg (evs @ stepEvents (bets s) (bets s')) s'"
| h_edit: "history cfg0 cfg evs s \<Longrightarrow> history cfg0 cfg evs (s\<lparr>tasks := ts\<rparr>)"
| h_config: "history cfg0 cfg evs s \<Longrightarrow> history cfg0 cfg' evs s"

text \<open>
  A settled wager is reproduced by the replay of \<open>evs\<close> from \<open>init\<close> when one of the
  events is its settlement, the balance the replay has reached right after that event
  is the \<open>balanceAfter\<close> recorded on the wager, and the recorded \<open>payout\<close> is the replayed
  one.
\<close>

definition replaysStamp :: "rat \<Rightarrow> LedgerEvent list \<Rightarrow> BetRecord \<Rightarrow> bool" where
  "replaysStamp init evs w \<longleftrightarrow>
     (\<exists>k < length evs. evs ! k = Settled w
        \<and> balanceAfter w = replayEvents init (take (Suc k) evs)
        \<and> payout w = replayPayout w)"

text \<open>A wager whose outcome is recorded.\<close>

definition isSettled :: "BetRecord \<Rightarrow> bool" where
  "isSettled w \<longleftrightarrow> status w \<noteq> PENDING"

text \<open>The combination \<open>(ruleId, targetHeight, source)\<close> that identifies a wager.\<close>

definition betKey :: "BetRecord \<Rightarrow> string \<times> int \<times> string option" where
  "betKey b = (ruleId b, targetHeight b, taskId b)"

definition noDuplicateWagers :: "BetRecord list \<Rightarrow> bool" where
  "noDuplicateWagers ledger = distinct (map betKey ledger)"

text \<open>What a wager is at placement, apart from the outcome fields settlement fills in.\<close>

definition wagerPlaced :: "BetRecord \<Rightarrow> string option \<times> string \<times> int \<times> BetType \<times> BetTarget \<times> rat \<times> rat" where
  "wagerPlaced b = (taskId b, ruleId b, targetHeight b, betType b, prediction b, amount b, odds b)"

text \<open>The balance after the settlement pass of a cycle, from which the engine computes
  the profit of the global stop test.\<close>

definition settledBalance :: "BlockData list \<Rightarrow> SimState \<Rightarrow> rat" where
  "settledBalance allBlocks s = currentBalance (fst (settleBets allBlocks (startCycle s) (bets s)))"

section \<open>Auxiliary notions for the proofs\<close>

text \<open>A wager the settlement pass leaves alone: already settled, or its block not yet
  in the window.\<close>

definition atRest :: "BlockData list \<Rightarrow> BetRecord \<Rightarrow> bool" where
  "atRest blocks b \<longleftrightarrow>
     status b \<noteq> PENDING \<or> find (\<lambda>x. height x = targetHeight b) blocks = None"

text \<open>What one task can do to the placement locals: nothing, or one new wager for a
  combination that passed the duplicate test.\<close>

definition placedBy :: "SimConfig \<Rightarrow> AutoTask \<Rightarrow> Placing \<Rightarrow> Placing \<Rightarrow> bool" where
  "placedBy cfg task p p' \<longleftrightarrow>
     p' = p \<or> (\<exists>rule h ty tg amt. \<not> isDupe task (rule_id rule) h (finalBets p)
                  \<and> p' = placeNew cfg task rule h ty tg amt p)"

text \<open>The change flag covers every change of ledger and balance.\<close>

definition committed :: "Placing \<Rightarrow> Placing \<Rightarrow> bool" where
  "committed p p' \<longleftrightarrow>
     (p_betsChanged p \<longrightarrow> p_betsChanged p')
     \<and> (p_betsChanged p' \<or> (finalBets p' = finalBets p \<and> p_currentBalance p' = p_currentBalance p))"

text \<open>What the placement pass does to ledger and balance: new pending wagers at the
  head of the ledger, their stakes debited oldest first.\<close>

definition grown :: "Placing \<Rightarrow> Placing \<Rightarrow> bool" where
  "grown p p' \<longleftrightarrow>
     (\<exists>new. finalBets p' = new @ finalBets p
        \<and> list_all (\<lambda>w. status w = PENDING) new
        \<and> p_currentBalance p' = replayEvents (p_currentBalance p) (placedEvents new))"

text \<open>
  The events account for the ledger: the wagers placed are the wagers of the ledger,
  oldest first, as they were at placement; the wagers settled are the settled wagers of
  the ledger, each once.
\<close>

definition ledgerOf :: "LedgerEvent list \<Rightarrow> BetRecord list \<Rightarrow> bool" where
  "ledgerOf evs ledger \<longleftrightarrow>
     map wagerPlaced (placedOf evs) = map wagerPlaced (rev ledger)
     \<and> set (settledOf evs) = set (filter isSettled ledger)
     \<and> length (settledOf evs) = length (filter isSettled ledger)"

text \<open>What one step adds to that account.\<close>

definition ledgerStep :: "BetRecord list \<Rightarrow> BetRecord list \<Rightarrow> LedgerEvent list \<Rightarrow> bool" where
  "ledgerStep old new E \<longleftrightarrow>
     map wagerPlaced (rev new) = map wagerPlaced (rev old) @ map wagerPlaced (placedOf E)
     \<and> set (filter isSettled new) = set (filter isSettled old) \<union> set (settledOf E)
     \<and> length (filter isSettled new) = length (filter isSettled old) + length (settledOf E)"

section \<open>Example data\<close>

definition exRule1 :: IntervalRule where
  "exRule1 = \<lparr>rule_id = ''r1'', rule_value = 1, startBlock = 0, beadRows = 6\<rparr>"

definition exRule20 :: IntervalRule where
  "exRule20 = \<lparr>rule_id = ''r20'', rule_value = 20, startBlock = 0, beadRows = 6\<rparr>"

definition exRuleFrom100 :: IntervalRule where
  "exRuleFrom100 = \<lparr>rule_id = ''r20-100'', rule_value = 20, startBlock = 100, beadRows = 6\<rparr>"

definition exBlock :: "int \<Rightarrow> BetTarget \<Rightarrow> BetTarget \<Rightarrow> BlockData" where
  "exBlock h p z = \<lparr>height = h, btype = p, sizeType = z\<rparr>"

text \<open>Twenty-four consecutive blocks, newest first, all \<open>ODD\<close> and \<open>BIG\<close>.\<close>

definition exWindowOddBig :: "BlockData list" where
  "exWindowOddBig = map (\<lambda>h. exBlock h ODD BIG) (rev [1 .. 24])"

text \<open>The default configuration of the component, and variants of it. The odds are the
  double written \<open>1.98\<close>, the risk fraction the double written \<open>0.2\<close>.\<close>

definition exConfig :: SimConfig where
  "exConfig =
    \<lparr>initialBalance = 10000, cfg_odds = dbl (198 / 100), stopLoss = 0, takeProfit = 0,
     cfg_baseBet = 100\<rparr>"

definition exStopConfig :: SimConfig where
  "exStopConfig = exConfig\<lparr>stopLoss := 500\<rparr>"

definition exKellyConfig :: SimConfig where
  "exKellyConfig = exConfig\<lparr>cfg_odds := 3 / 2, cfg_baseBet := 200\<rparr>"

definition exFixedOdd :: StrategyConfig where
  "exFixedOdd =
    \<lparr>stype = FLAT, autoTarget = FIXED_ODD, targetType = PARITY, multiplier = 2,
     maxCycle = 3, step = 10, minStreak = 1, customSequence = None,
     kellyFraction = Some (dbl (2 / 10))\<rparr>"

definition exFlatTask :: AutoTask where
  "exFlatTask = (createTask exConfig exFixedOdd ''r20'' ''t1'')\<lparr>isActive := True\<rparr>"

definition exKellyTask :: AutoTask where
  "exKellyTask =
    (createTask exConfig (exFixedOdd\<lparr>stype := AI_KELLY\<rparr>) ''r20'' ''t1'')\<lparr>isActive := True\<rparr>"

text \<open>A Martingale task after two losses in a row: the next stake is 400.\<close>

definition exMartingaleTask :: AutoTask where
  "exMartingaleTask =
    (createTask exConfig (exFixedOdd\<lparr>stype := MARTINGALE\<rparr>) ''r20'' ''t1'')
      \<lparr>isActive := True,
       state := \<lparr>consecutiveLosses = 2, currentBetAmount = 400, sequenceIndex = 0\<rparr>\<rparr>"

definition exState :: "rat \<Rightarrow> BetRecord list \<Rightarrow> AutoTask list \<Rightarrow> SimState" where
  "exState bal ledger ts =
    \<lparr>balance = bal, bets = ledger, tasks = ts,
     globalMetrics = \<lparr>peakBalance = 10000, gm_maxDrawdown = 0\<rparr>\<rparr>"

definition exPendingOdd40 :: BetRecord where
  "exPendingOdd40 =
    \<lparr>taskId = Some ''t1'', ruleId = ''r20'', targetHeight = 40, betType = PARITY,
     prediction = ODD, amount = 100, odds = dbl (198 / 100), status = PENDING, payout = 0,
     balanceAfter = 0\<rparr>"

definition noDraw :: "nat \<Rightarrow> nat \<Rightarrow> rat" where
  "noDraw i j = 0"

text \<open>A fresh account with one active flat task after a first cycle (the wager on
  height 40 is placed), the next block window, and the account after a manual wager on
  the same height.\<close>

definition exFirstCycle :: SimState where
  "exFirstCycle =
    engine exConfig [exRule20] [exBlock 25 EVEN SMALL] noDraw (exState 10000 [] [exFlatTask])"

definition exSecondWindow :: "BlockData list" where
  "exSecondWindow = [exBlock 40 ODD BIG, exBlock 25 EVEN SMALL]"

definition exManual :: SimState where
  "exManual = snd (placeBet exConfig 40 PARITY EVEN 100 SRC_MANUAL exRule20 None exFirstCycle)"

text \<open>
  A history with overlapping wagers. On a fresh account with one active flat task the
  operator stakes 3 on height 40; the next cycle places the task's wager of 100 on the
  same height; the cycle that sees block 40 settles both, the task's wager first
  because it is at the head of the ledger, and places the task's next wager on height
  60. The second credit is the double product \<open>3 * 1.98 = 5.9399999999999995\<close>.
\<close>

definition exFresh :: SimState where
  "exFresh = exState 10000 [] [exFlatTask]"

definition exHistManual :: SimState where
  "exHistManual = snd (placeBet exConfig 40 PARITY ODD 3 SRC_MANUAL exRule20 None exFresh)"

definition exHistPlaced :: SimState where
  "exHistPlaced = engine exConfig [exRule20] [exBlock 25 EVEN SMALL] noDraw exHistManual"

definition exHistSettled :: SimState where
  "exHistSettled = engine exConfig [exRule20] exSecondWindow noDraw exHistPlaced"

definition exHistEvents :: "LedgerEvent list" where
  "exHistEvents =
    [Placed (exPendingOdd40\<lparr>taskId := None, amount := 3\<rparr>),
     Placed exPendingOdd40,
     Settled (exPendingOdd40\<lparr>status := WIN, payout := 198, balanceAfter := 10095\<rparr>),
     Settled (exPendingOdd40\<lparr>taskId := None, amount := 3, status := WIN,
        payout := 3343922723322593 / 562949953421312,
        balanceAfter := 5553050490733855 / 549755813888\<rparr>),
     Placed (exPendingOdd40\<lparr>targetHeight := 60\<rparr>)]"

text \<open>The configuration after the operator has typed 5000 into the initial balance.\<close>

definition exEditedConfig :: SimConfig where
  "exEditedConfig = exConfig\<lparr>initialBalance := 5000\<rparr>"

section \<open>Double arithmetic: evaluation\<close>

lemma floor_rat_numeral_div: "\<lfloor>numeral a / numeral b :: rat\<rfloor> = numeral a div numeral b"
  by (metis floor_divide_of_int_eq of_int_numeral)

lemma floor_rat_one_div: "\<lfloor>1 / numeral b :: rat\<rfloor> = 1 div numeral b"
  by (metis floor_divide_of_int_eq of_int_numeral of_int_1)

lemma dbl_minus: "dbl (- x) = - dbl x"
  by (simp add: dbl_def Let_def)

text \<open>The definitions at literals, for evaluation by rewriting.\<close>

lemmas dbl_eval =
  dbl_def [of 0] dbl_def [of 1] dbl_def [of "numeral a" for a]
  dbl_def [of "numeral a / numeral b" for a b] dbl_def [of "1 / numeral b" for b] dbl_minus
  ilog2_def [of 1] ilog2_def [of "numeral a" for a]
  ilog2_def [of "numeral a / numeral b" for a b] ilog2_def [of "1 / numeral b" for b]
  roundHalfEven_def [of 0] roundHalfEven_def [of 1] roundHalfEven_def [of "numeral a" for a]
  roundHalfEven_def [of "numeral a / numeral b" for a b]
  roundHalfEven_def [of "1 / numeral b" for b]
  pow2_def [of 0] pow2_def [of 1] pow2_def [of "numeral a" for a]
  pow2_def [of "- 1"] pow2_def [of "- numeral a" for a]
  bitLength.simps [of 0] bitLength.simps [of 1] bitLength.simps [of "Suc 0"]
  bitLength.simps [of "numeral a" for a]
  Let_def floor_rat_numeral_div floor_rat_one_div

text \<open>
  The doubles written \<open>1.98\<close> and \<open>0.2\<close>; \<open>0.1 + 0.2\<close>, which is not the double \<open>0.3\<close>;
  \<open>3 * 1.98 = 5.9399999999999995\<close>; and two ties above \<open>2^53\<close>, rounded to the even
  neighbour.
\<close>

lemma dbl_examples:
  "dbl (198 / 100) = 4458563631096791 / 2251799813685248"
  "dbl (2 / 10) = 3602879701896397 / 18014398509481984"
  "dbl (dbl (1 / 10) + dbl (2 / 10)) = 1351079888211149 / 4503599627370496"
  "dbl (3 / 10) = 5404319552844595 / 18014398509481984"
  "dbl (3 * dbl (198 / 100)) = 3343922723322593 / 562949953421312"
  "dbl 9007199254740993 = 9007199254740992"
  "dbl 9007199254740995 = 9007199254740996"
  "dbl (- 50) = - 50"
  by (simp_all add: dbl_eval)

section \<open>Rule alignment: properties\<close>

lemma jsRem_eq_0_dvd: "jsRem a b = 0 \<longleftrightarrow> b dvd a"
proof (cases "a = 0")
  case True
  then show ?thesis by (simp add: jsRem_def)
next
  case False
  then have "jsRem a b = 0 \<longleftrightarrow> \<bar>a\<bar> mod \<bar>b\<bar> = 0"
    by (simp add: jsRem_def sgn_if)
  also have "\<dots> \<longleftrightarrow> \<bar>b\<bar> dvd \<bar>a\<bar>"
    by (rule mod_eq_0_iff_dvd)
  also have "\<dots> \<longleftrightarrow> b dvd a" by simp
  finally show ?thesis .
qed

lemma div_grid_gt:
  fixes d s :: int
  assumes "0 < s"
  shows "d < (d div s + 1) * s"
proof -
  have "d mod s < s" using assms by simp
  moreover have "d = d div s * s + d mod s" by simp
  ultimately have "d < d div s * s + s" by linarith
  then show ?thesis by (simp add: algebra_simps)
qed

text \<open>For a step above one the first candidate is always past the current height, so
  the fallback \<open>nextHeight + step\<close> is never taken.\<close>

lemma getNextTargetHeight_grid:
  assumes "1 < stp"
  shows "getNextTargetHeight h stp off = off + ((h - off) div stp + 1) * stp"
proof -
  have "h - off < ((h - off) div stp + 1) * stp"
    using assms by (intro div_grid_gt) simp
  then have "h < off + ((h - off) div stp + 1) * stp" by linarith
  with assms show ?thesis by (simp add: getNextTargetHeight_def Let_def)
qed

lemma getNextTargetHeight_greater: "h < getNextTargetHeight h stp off"
proof (cases "1 < stp")
  case True
  have "h - off < ((h - off) div stp + 1) * stp"
    using True by (intro div_grid_gt) simp
  then show ?thesis unfolding getNextTargetHeight_grid[OF True] by linarith
next
  case False
  then show ?thesis by (simp add: getNextTargetHeight_def)
qed

lemma getNextTargetHeight_aligned:
  assumes "1 \<le> rule_value rule" "0 \<le> startBlock rule"
    and "startBlock rule = 0 \<or> startBlock rule - rule_value rule \<le> h"
  shows "checkRuleAlignment (getNextTargetHeight h (rule_value rule) (startBlock rule)) rule"
proof (cases "1 < rule_value rule")
  case False
  then show ?thesis by (simp add: checkRuleAlignment_def)
next
  case True
  let ?s = "rule_value rule" and ?o = "startBlock rule"
  let ?m = "(h - ?o) div ?s + 1"
  have grid: "getNextTargetHeight h ?s ?o = ?o + ?m * ?s"
    by (rule getNextTargetHeight_grid[OF True])
  show ?thesis
  proof (cases "?o = 0")
    case True
    have "?s dvd ?o + ?m * ?s" using True by simp
    with \<open>1 < ?s\<close> True show ?thesis
      unfolding checkRuleAlignment_def grid jsRem_eq_0_dvd by simp
  next
    case False
    with assms have pos: "0 < ?o" and low: "?o - ?s \<le> h" by auto
    have "- ?s \<le> h - ?o" using low by linarith
    then have "0 \<le> h - ?o + ?s" by linarith
    moreover have "0 < ?s" using True by simp
    ultimately have "0 \<le> (h - ?o + ?s) div ?s"
      by (simp only: pos_imp_zdiv_nonneg_iff)
    moreover have "(h - ?o + ?s) div ?s = ?m"
      using True by (simp add: div_add_self2)
    ultimately have "0 \<le> ?m" by simp
    then have "0 \<le> ?m * ?s" using True by simp
    then have "?o \<le> ?o + ?m * ?s" by simp
    moreover have "?s dvd (?o + ?m * ?s - ?o)" by simp
    ultimately show ?thesis using True pos
      unfolding checkRuleAlignment_def grid jsRem_eq_0_dvd by simp
  qed
qed

text \<open>
  What the code guarantees about the next target height. For the rule with step 20 and
  offset 0 the aligned heights are exactly the multiples of 20, and the next aligned
  height after 25 is 40. The result of \<open>getNextTargetHeight\<close> is always strictly greater
  than the current height. For a rule with step at least 1 and a non-negative offset the
  result is an aligned height whenever the current height is not more than one step
  below the offset (in particular whenever it has reached the offset, and always for
  offset 0).
\<close>

lemma nextAligned_aligned_from_offset:
  "(\<forall>h. checkRuleAlignment h (rule\<lparr>rule_value := 20, startBlock := 0\<rparr>) = (20 dvd h))
   \<and> getNextTargetHeight 25 20 0 = 40
   \<and> (\<forall>h stp off. h < getNextTargetHeight h stp off)
   \<and> (\<forall>r h. 1 \<le> rule_value r \<and> 0 \<le> startBlock r
          \<and> (startBlock r = 0 \<or> startBlock r - rule_value r \<le> h)
        \<longrightarrow> checkRuleAlignment (getNextTargetHeight h (rule_value r) (startBlock r)) r)"
proof (intro conjI allI impI)
  fix h
  show "checkRuleAlignment h (rule\<lparr>rule_value := 20, startBlock := 0\<rparr>) = (20 dvd h)"
    by (simp add: checkRuleAlignment_def jsRem_eq_0_dvd)
next
  show "getNextTargetHeight 25 20 0 = 40"
    by (simp add: getNextTargetHeight_def Let_def)
next
  fix h stp off :: int
  show "h < getNextTargetHeight h stp off"
    by (rule getNextTargetHeight_greater)
next
  fix r :: IntervalRule and h :: int
  assume "1 \<le> rule_value r \<and> 0 \<le> startBlock r
    \<and> (startBlock r = 0 \<or> startBlock r - rule_value r \<le> h)"
  then show "checkRuleAlignment (getNextTargetHeight h (rule_value r) (startBlock r)) r"
    by (intro getNextTargetHeight_aligned) simp_all
qed

lemma nextAligned_at_offset_example:
  "checkRuleAlignment (getNextTargetHeight 85 20 100) exRuleFrom100
   \<and> getNextTargetHeight 85 20 100 = 100
   \<and> checkRuleAlignment (getNextTargetHeight 25 20 0) exRule20"
proof -
  have a: "1 \<le> rule_value exRuleFrom100 \<and> 0 \<le> startBlock exRuleFrom100
      \<and> (startBlock exRuleFrom100 = 0 \<or> startBlock exRuleFrom100 - rule_value exRuleFrom100 \<le> 85)"
    by (simp add: exRuleFrom100_def)
  have b: "1 \<le> rule_value exRule20 \<and> 0 \<le> startBlock exRule20
      \<and> (startBlock exRule20 = 0 \<or> startBlock exRule20 - rule_value exRule20 \<le> 25)"
    by (simp add: exRule20_def)
  have c: "getNextTargetHeight 85 20 100 = 100"
    by (simp add: getNextTargetHeight_def Let_def)
  from nextAligned_aligned_from_offset [of exRule20] a b
  have "checkRuleAlignment
          (getNextTargetHeight 85 (rule_value exRuleFrom100) (startBlock exRuleFrom100)) exRuleFrom100"
    and "checkRuleAlignment
          (getNextTargetHeight 25 (rule_value exRule20) (startBlock exRule20)) exRule20"
    by blast+
  with c show ?thesis by (simp add: exRuleFrom100_def exRule20_def)
qed

text \<open>
  Claim C9 (for every rule with step at least 1 and every height, the next target
  height is an aligned height strictly greater than the current one) at a height below
  the offset. With step 20, offset 100 and current height 25, \<open>getNextTargetHeight\<close>
  returns 40: strictly greater, but before the start block, where \<open>checkRuleAlignment\<close>
  accepts no height. The step-20, offset-0 instance of the claim holds: 40 follows 25
  and is aligned.
\<close>

theorem nextAligned_below_offset_not_aligned:
  "getNextTargetHeight 25 (rule_value exRuleFrom100) (startBlock exRuleFrom100) = 40
   \<and> \<not> checkRuleAlignment
         (getNextTargetHeight 25 (rule_value exRuleFrom100) (startBlock exRuleFrom100))
         exRuleFrom100
   \<and> getNextTargetHeight 25 (rule_value exRule20) (startBlock exRule20) = 40
   \<and> checkRuleAlignment 40 exRule20"
  by (simp add: exRuleFrom100_def exRule20_def getNextTargetHeight_def Let_def
      checkRuleAlignment_def jsRem_def)

section \<open>Engine lemmas\<close>


subsection \<open>The settlement pass\<close>

lemma settleBet_placed: "wagerPlaced (snd (settleBet blocks c b)) = wagerPlaced b"
  by (simp add: settleBet_def wagerPlaced_def Let_def split: option.splits)

lemma settleBets_placed: "map wagerPlaced (snd (settleBets blocks c bs)) = map wagerPlaced bs"
  by (induction bs arbitrary: c) (simp_all add: Let_def settleBet_placed)

lemma settleBets_length: "length (snd (settleBets blocks c bs)) = length bs"
  by (induction bs arbitrary: c) (simp_all add: Let_def)

lemma betKey_placed: "wagerPlaced a = wagerPlaced b \<Longrightarrow> betKey a = betKey b"
  by (simp add: wagerPlaced_def betKey_def)

lemma amount_placed: "wagerPlaced a = wagerPlaced b \<Longrightarrow> amount a = amount b"
  by (simp add: wagerPlaced_def)

lemma map_betKey_placed: "map wagerPlaced xs = map wagerPlaced ys \<Longrightarrow> map betKey xs = map betKey ys"
proof (induction xs arbitrary: ys)
  case Nil then show ?case by simp
next
  case (Cons x xs)
  then obtain y ys' where "ys = y # ys'" by (cases ys) auto
  with Cons show ?case by (auto dest: betKey_placed)
qed

lemma map_amount_placed: "map wagerPlaced xs = map wagerPlaced ys \<Longrightarrow> map amount xs = map amount ys"
proof (induction xs arbitrary: ys)
  case Nil then show ?case by simp
next
  case (Cons x xs)
  then obtain y ys' where "ys = y # ys'" by (cases ys) auto
  with Cons show ?case by (auto dest: amount_placed)
qed

lemma settleBet_unchanged_or_flag:
  "settleBet blocks c b = (c, b) \<or> betsChanged (fst (settleBet blocks c b))"
  by (simp add: settleBet_def Let_def split: option.splits)

lemma settleBet_flag_mono: "betsChanged c \<Longrightarrow> betsChanged (fst (settleBet blocks c b))"
  by (simp add: settleBet_def Let_def split: option.splits)

lemma settleBets_flag_mono: "betsChanged c \<Longrightarrow> betsChanged (fst (settleBets blocks c bs))"
  by (induction bs arbitrary: c) (simp_all add: Let_def settleBet_flag_mono)

lemma settleBets_unchanged_or_flag:
  "settleBets blocks c bs = (c, bs) \<or> betsChanged (fst (settleBets blocks c bs))"
proof (induction bs arbitrary: c)
  case Nil then show ?case by simp
next
  case (Cons b bs)
  show ?case
  proof (cases "settleBet blocks c b = (c, b)")
    case True
    with Cons[of c] show ?thesis by (auto simp: Let_def)
  next
    case False
    then have "betsChanged (fst (settleBet blocks c b))"
      using settleBet_unchanged_or_flag[of blocks c b] by simp
    then show ?thesis by (simp add: Let_def settleBets_flag_mono)
  qed
qed

lemma settleBet_tasks_unchanged_or_flag:
  "nextTasks (fst (settleBet blocks c b)) = nextTasks c \<or> tasksChanged (fst (settleBet blocks c b))"
  by (simp add: settleBet_def Let_def split: option.splits)

lemma settleBet_tflag_mono: "tasksChanged c \<Longrightarrow> tasksChanged (fst (settleBet blocks c b))"
  by (simp add: settleBet_def Let_def split: option.splits)

lemma settleBets_tflag_mono: "tasksChanged c \<Longrightarrow> tasksChanged (fst (settleBets blocks c bs))"
  by (induction bs arbitrary: c) (simp_all add: Let_def settleBet_tflag_mono)

lemma settleBets_tasks_unchanged_or_flag:
  "nextTasks (fst (settleBets blocks c bs)) = nextTasks c \<or> tasksChanged (fst (settleBets blocks c bs))"
proof (induction bs arbitrary: c)
  case Nil then show ?case by simp
next
  case (Cons b bs)
  from settleBet_tasks_unchanged_or_flag[of blocks c b] Cons[of "fst (settleBet blocks c b)"]
  show ?case by (auto simp: Let_def settleBets_tflag_mono)
qed

subsection \<open>Wagers the settlement pass leaves alone\<close>

lemma settleBet_atRest: "atRest blocks b \<Longrightarrow> settleBet blocks c b = (c, b)"
  by (auto simp: atRest_def settleBet_def)

lemma settleBet_result_atRest: "atRest blocks (snd (settleBet blocks c b))"
  by (auto simp: atRest_def settleBet_def Let_def split: option.splits)

lemma settleBets_atRest: "list_all (atRest blocks) bs \<Longrightarrow> settleBets blocks c bs = (c, bs)"
  by (induction bs arbitrary: c) (simp_all add: settleBet_atRest Let_def)

lemma settleBets_result_atRest: "list_all (atRest blocks) (snd (settleBets blocks c bs))"
  by (induction bs arbitrary: c) (simp_all add: settleBet_result_atRest Let_def)

subsection \<open>What a task places\<close>


lemma placedBy_refl: "placedBy cfg task p p"
  by (simp add: placedBy_def)

lemma placedBy_new: "\<not> isDupe task (rule_id rule) h (finalBets p) \<Longrightarrow>
    placedBy cfg task p (placeNew cfg task rule h ty tg amt p)"
  unfolding placedBy_def by blast

lemma placeCandidate_placedBy: "placedBy cfg task p (placeCandidate cfg task best conf p)"
  by (simp add: placeCandidate_def placedBy_refl placedBy_new split: option.splits)

lemma fullScanTask_placedBy: "placedBy cfg task p (fullScanTask cfg rules allBlocks curH random task p)"
  by (simp add: fullScanTask_def Let_def placedBy_refl placeCandidate_placedBy)

lemma dragonTask_placedBy: "placedBy cfg task p (dragonTask cfg rules allBlocks curH task p)"
  by (simp add: dragonTask_def Let_def placedBy_refl placeCandidate_placedBy)

lemma standardTask_placedBy: "placedBy cfg task p (standardTask cfg rules allBlocks curH random task p)"
  by (simp add: standardTask_def Let_def placedBy_refl placedBy_new split: option.splits prod.splits)

lemma processTask_cases:
  "placedBy cfg task p (snd (processTask cfg rules allBlocks curH random task p))
   \<or> processTask cfg rules allBlocks curH random task p
        = (task\<lparr>isActive := False\<rparr>, p\<lparr>p_tasksChanged := True\<rparr>)"
  by (simp add: processTask_def fullScanTask_placedBy dragonTask_placedBy standardTask_placedBy placedBy_refl)

subsection \<open>Placement keeps the ledger free of duplicates\<close>

lemma isDupe_iff: "isDupe task rid h bs \<longleftrightarrow> (rid, h, Some (task_id task)) \<in> set (map betKey bs)"
  by (induction bs) (auto simp: isDupe_def betKey_def)

lemma placeNew_key: "map betKey (finalBets (placeNew cfg task rule h ty tg amt p))
    = (rule_id rule, h, Some (task_id task)) # map betKey (finalBets p)"
  by (simp add: placeNew_def betKey_def Let_def)

lemma placedBy_nodup:
  "placedBy cfg task p p' \<Longrightarrow> noDuplicateWagers (finalBets p) \<Longrightarrow> noDuplicateWagers (finalBets p')"
  unfolding placedBy_def noDuplicateWagers_def
  by (auto simp: placeNew_key isDupe_iff)

lemma processTask_nodup:
  "noDuplicateWagers (finalBets p) \<Longrightarrow>
   noDuplicateWagers (finalBets (snd (processTask cfg rules allBlocks curH random task p)))"
  using processTask_cases[of cfg task p rules allBlocks curH random]
  by (auto dest: placedBy_nodup)

lemma placeTasks_nodup:
  "noDuplicateWagers (finalBets p) \<Longrightarrow>
   noDuplicateWagers (finalBets (snd (placeTasks cfg rules allBlocks curH random i p ts)))"
  by (induction ts arbitrary: p i) (simp_all add: Let_def processTask_nodup)

subsection \<open>The change flags\<close>

lemma committed_refl: "committed p p"
  by (simp add: committed_def)

lemma committed_trans: "committed p q \<Longrightarrow> committed q r \<Longrightarrow> committed p r"
  by (auto simp: committed_def)

lemma placedBy_committed: "placedBy cfg task p p' \<Longrightarrow> committed p p'"
  by (auto simp: placedBy_def committed_def placeNew_def Let_def)

lemma processTask_committed: "committed p (snd (processTask cfg rules allBlocks curH random task p))"
  using processTask_cases[of cfg task p rules allBlocks curH random]
  by (auto dest: placedBy_committed simp: committed_def)

lemma placeTasks_committed: "committed p (snd (placeTasks cfg rules allBlocks curH random i p ts))"
proof (induction ts arbitrary: p i)
  case Nil then show ?case by (simp add: committed_refl)
next
  case (Cons t ts)
  show ?case
    by (simp add: Let_def)
       (rule committed_trans[OF processTask_committed Cons])
qed

subsection \<open>The whole cycle\<close>


lemma placementPass_nodup:
  "noDuplicateWagers ub \<Longrightarrow>
   noDuplicateWagers (finalBets (snd (placementPass cfg rules allBlocks curH random c ub)))"
  by (simp add: placementPass_def Let_def placeTasks_nodup)

lemma placementPass_committed:
  "committed \<lparr>p_currentBalance = currentBalance c, finalBets = ub,
              p_betsChanged = betsChanged c, p_tasksChanged = tasksChanged c\<rparr>
     (snd (placementPass cfg rules allBlocks curH random c ub))"
  by (simp add: placementPass_def Let_def placeTasks_committed) (simp add: committed_def)

lemma engine_commit:
  fixes s cfg rules random b0 rest
  defines "r \<equiv> settleBets (b0 # rest) (startCycle s) (bets s)"
  defines "p \<equiv> snd (placementPass cfg rules (b0 # rest) (height b0) random (fst r) (snd r))"
  shows "bets (engine cfg rules (b0 # rest) random s) = finalBets p"
    and "balance (engine cfg rules (b0 # rest) random s) = p_currentBalance p"
proof -
  have eng: "bets (engine cfg rules (b0 # rest) random s) = (if p_betsChanged p then finalBets p else bets s)"
     "balance (engine cfg rules (b0 # rest) random s) = (if p_betsChanged p then p_currentBalance p else balance s)"
    by (simp_all add: engine_def Let_def r_def p_def)
  have com: "committed \<lparr>p_currentBalance = currentBalance (fst r), finalBets = snd r,
              p_betsChanged = betsChanged (fst r), p_tasksChanged = tasksChanged (fst r)\<rparr> p"
    unfolding p_def by (rule placementPass_committed)
  have "finalBets p = bets s \<and> p_currentBalance p = balance s" if "\<not> p_betsChanged p"
  proof -
    from com that have a: "\<not> betsChanged (fst r)" "finalBets p = snd r" "p_currentBalance p = currentBalance (fst r)"
      by (auto simp: committed_def)
    with settleBets_unchanged_or_flag[of "b0 # rest" "startCycle s" "bets s"]
    have "r = (startCycle s, bets s)" by (simp add: r_def)
    with a show ?thesis by (simp add: startCycle_def)
  qed
  with eng show "bets (engine cfg rules (b0 # rest) random s) = finalBets p"
    and "balance (engine cfg rules (b0 # rest) random s) = p_currentBalance p"
    by auto
qed

lemma engine_nodup:
  assumes "noDuplicateWagers (bets s)"
  shows "noDuplicateWagers (bets (engine cfg rules allBlocks random s))"
proof (cases allBlocks)
  case Nil
  with assms show ?thesis by (simp add: engine_def)
next
  case (Cons b0 rest)
  have "map betKey (snd (settleBets allBlocks (startCycle s) (bets s))) = map betKey (bets s)"
    by (rule map_betKey_placed[OF settleBets_placed])
  with assms have "noDuplicateWagers (snd (settleBets allBlocks (startCycle s) (bets s)))"
    by (simp add: noDuplicateWagers_def)
  then show ?thesis unfolding Cons engine_commit(1) by (rule placementPass_nodup)
qed

lemma key_manual: "betKey b = (rid, h, None) \<longleftrightarrow> targetHeight b = h \<and> ruleId b = rid \<and> taskId b = None"
  by (auto simp: betKey_def)

lemma placeBet_manual_nodup:
  assumes "noDuplicateWagers (bets s)"
  shows "noDuplicateWagers (bets (snd (placeBet cfg h ty tg amt SRC_MANUAL rule None s)))"
proof (cases "list_ex (\<lambda>b. targetHeight b = h \<and> ruleId b = rule_id rule \<and> \<not> truthyId (taskId b)) (bets s)")
  case True
  with assms show ?thesis by (simp add: placeBet_def Let_def)
next
  case False
  then have "(rule_id rule, h, None) \<notin> set (map betKey (bets s))"
    by (auto simp: list_ex_iff betKey_def truthyId_def)
  with assms False show ?thesis
    by (simp add: placeBet_def Let_def noDuplicateWagers_def betKey_def)
qed

lemma reachable_nodup: "reachable init s \<Longrightarrow> noDuplicateWagers (bets s)"
proof (induction rule: reachable.induct)
  case (fresh ts gm)
  then show ?case by (simp add: noDuplicateWagers_def)
next
  case (manual s cfg h ty tg amt rule)
  then show ?case by (intro placeBet_manual_nodup)
next
  case (cycle s cfg rules allBlocks random)
  then show ?case by (intro engine_nodup)
next
  case (edit s ts)
  then show ?case by simp
qed

subsection \<open>The replay of the events\<close>

lemma replayEvents_Nil: "replayEvents init [] = init"
  by (simp add: replayEvents_def)

lemma replayEvents_Cons: "replayEvents init (e # evs) = replayEvents (replayStep init e) evs"
  by (simp add: replayEvents_def)

lemma replayEvents_append:
  "replayEvents init (xs @ ys) = replayEvents (replayEvents init xs) ys"
  by (simp add: replayEvents_def)

lemma placedEvents_append: "placedEvents (xs @ ys) = placedEvents ys @ placedEvents xs"
  by (simp add: placedEvents_def)

lemma settledEvents_same: "settledEvents xs xs = []"
  by (induction xs) simp_all

lemma stepEvents_same: "stepEvents xs xs = []"
  by (simp add: stepEvents_def settledEvents_same placedEvents_def)

lemma stepEvents_grown:
  "length old' = length old \<Longrightarrow>
   stepEvents old (new @ old') = settledEvents old old' @ placedEvents new"
  by (simp add: stepEvents_def Let_def)

lemma replaysStamp_append:
  assumes "replaysStamp init evs w"
  shows "replaysStamp init (evs @ later) w"
proof -
  from assms obtain k where k: "k < length evs" "evs ! k = Settled w"
    "balanceAfter w = replayEvents init (take (Suc k) evs)" "payout w = replayPayout w"
    unfolding replaysStamp_def by blast
  have "k < length (evs @ later)" using k(1) by simp
  moreover have "(evs @ later) ! k = Settled w" using k(1,2) by (simp add: nth_append)
  moreover have "balanceAfter w = replayEvents init (take (Suc k) (evs @ later))"
    using k(1,3) by simp
  ultimately show ?thesis unfolding replaysStamp_def using k(4) by blast
qed

lemma replaysStamp_shift:
  assumes "replaysStamp (replayEvents init evs) later w"
  shows "replaysStamp init (evs @ later) w"
proof -
  from assms obtain k where k: "k < length later" "later ! k = Settled w"
    "balanceAfter w = replayEvents (replayEvents init evs) (take (Suc k) later)"
    "payout w = replayPayout w"
    unfolding replaysStamp_def by blast
  have "length evs + k < length (evs @ later)" using k(1) by simp
  moreover have "(evs @ later) ! (length evs + k) = Settled w"
    using k(2) by simp
  moreover have "balanceAfter w = replayEvents init (take (Suc (length evs + k)) (evs @ later))"
    using k(3) by (simp add: replayEvents_append)
  ultimately show ?thesis unfolding replaysStamp_def using k(4) by blast
qed

lemma replaysStamp_Cons:
  "replaysStamp (replayStep init e) evs w \<Longrightarrow> replaysStamp init (e # evs) w"
  using replaysStamp_shift[of init "[e]" evs w]
  by (simp add: replayEvents_Cons replayEvents_Nil)

subsection \<open>Settlement credits in ledger order\<close>

lemma settleBet_cases:
  "settleBet blocks c b = (c, b)
   \<or> (status b = PENDING \<and> status (snd (settleBet blocks c b)) \<noteq> PENDING
      \<and> currentBalance (fst (settleBet blocks c b))
          = dbl (currentBalance c + replayPayout (snd (settleBet blocks c b)))
      \<and> balanceAfter (snd (settleBet blocks c b)) = currentBalance (fst (settleBet blocks c b))
      \<and> payout (snd (settleBet blocks c b)) = replayPayout (snd (settleBet blocks c b)))"
  by (auto simp: settleBet_def Let_def replayPayout_def split: option.splits)

lemma settleBets_events:
  "currentBalance (fst (settleBets blocks c bs))
     = replayEvents (currentBalance c) (settledEvents bs (snd (settleBets blocks c bs)))
   \<and> (\<forall>w \<in> set (snd (settleBets blocks c bs)).
         w \<in> set bs
         \<or> replaysStamp (currentBalance c) (settledEvents bs (snd (settleBets blocks c bs))) w)"
proof (induction bs arbitrary: c)
  case Nil
  then show ?case by (simp add: replayEvents_Nil)
next
  case (Cons b bs)
  let ?r = "settleBet blocks c b"
  let ?rs = "settleBets blocks (fst ?r) bs"
  let ?E = "settledEvents bs (snd ?rs)"
  have res: "settleBets blocks c (b # bs) = (fst ?rs, snd ?r # snd ?rs)"
    by (simp add: Let_def)
  from Cons[of "fst ?r"]
  have ih_bal: "currentBalance (fst ?rs) = replayEvents (currentBalance (fst ?r)) ?E"
    and ih_w: "\<And>w. w \<in> set (snd ?rs) \<Longrightarrow>
          w \<in> set bs \<or> replaysStamp (currentBalance (fst ?r)) ?E w"
    by blast+
  from settleBet_cases[of blocks c b]
  consider (same) "?r = (c, b)"
    | (settled) "status b = PENDING" "status (snd ?r) \<noteq> PENDING"
        "currentBalance (fst ?r) = dbl (currentBalance c + replayPayout (snd ?r))"
        "balanceAfter (snd ?r) = currentBalance (fst ?r)"
        "payout (snd ?r) = replayPayout (snd ?r)"
    by blast
  then show ?case
  proof cases
    case same
    then have ev: "settledEvents (b # bs) (snd ?r # snd ?rs) = ?E" by simp
    show ?thesis
      unfolding res fst_conv snd_conv ev
      using ih_bal ih_w same by auto
  next
    case settled
    let ?e = "Settled (snd ?r)"
    have ev: "settledEvents (b # bs) (snd ?r # snd ?rs) = ?e # ?E"
      using settled(1,2) by simp
    have step: "replayStep (currentBalance c) ?e = currentBalance (fst ?r)"
      using settled(3) by simp
    have head: "replaysStamp (currentBalance c) (?e # ?E) (snd ?r)"
      unfolding replaysStamp_def
      using settled(4,5) step
      by (intro exI[of _ 0]) (simp add: replayEvents_Cons replayEvents_Nil)
    have tail: "w \<in> set bs \<or> replaysStamp (currentBalance c) (?e # ?E) w"
      if "w \<in> set (snd ?rs)" for w
      using ih_w[OF that] step by (auto intro: replaysStamp_Cons)
    show ?thesis
      unfolding res fst_conv snd_conv ev
      using ih_bal step head tail by (auto simp: replayEvents_Cons)
  qed
qed

subsection \<open>Placement debits, oldest first\<close>

lemma grown_refl: "grown p p"
  unfolding grown_def by (intro exI[of _ "[]"]) (simp add: placedEvents_def replayEvents_Nil)

lemma grown_trans:
  assumes "grown p q" "grown q r"
  shows "grown p r"
proof -
  from assms(1) obtain n1 where n1: "finalBets q = n1 @ finalBets p"
    "list_all (\<lambda>w. status w = PENDING) n1"
    "p_currentBalance q = replayEvents (p_currentBalance p) (placedEvents n1)"
    unfolding grown_def by blast
  from assms(2) obtain n2 where n2: "finalBets r = n2 @ finalBets q"
    "list_all (\<lambda>w. status w = PENDING) n2"
    "p_currentBalance r = replayEvents (p_currentBalance q) (placedEvents n2)"
    unfolding grown_def by blast
  show ?thesis
    unfolding grown_def
    using n1 n2
    by (intro exI[of _ "n2 @ n1"]) (simp add: placedEvents_append replayEvents_append)
qed

lemma placedBy_grown: "placedBy cfg task p p' \<Longrightarrow> grown p p'"
proof -
  assume "placedBy cfg task p p'"
  then consider "p' = p"
    | rule h ty tg amt where "p' = placeNew cfg task rule h ty tg amt p"
    unfolding placedBy_def by blast
  then show ?thesis
  proof cases
    case 1
    then show ?thesis by (simp add: grown_refl)
  next
    case 2
    let ?nb = "\<lparr>taskId = Some (task_id task), ruleId = rule_id rule, targetHeight = h,
        betType = ty, prediction = tg, amount = amt, odds = cfg_odds cfg,
        status = PENDING, payout = 0, balanceAfter = 0\<rparr>"
    show ?thesis
      unfolding grown_def 2
      by (intro exI[of _ "[?nb]"])
         (simp add: placeNew_def Let_def placedEvents_def replayEvents_Cons replayEvents_Nil)
  qed
qed

lemma processTask_grown: "grown p (snd (processTask cfg rules allBlocks curH random task p))"
proof -
  from processTask_cases[of cfg task p rules allBlocks curH random]
  consider (a) "placedBy cfg task p (snd (processTask cfg rules allBlocks curH random task p))"
    | (b) "processTask cfg rules allBlocks curH random task p
        = (task\<lparr>isActive := False\<rparr>, p\<lparr>p_tasksChanged := True\<rparr>)" by blast
  then show ?thesis
  proof cases
    case a
    then show ?thesis by (rule placedBy_grown)
  next
    case b
    show ?thesis
      unfolding b snd_conv grown_def
      by (intro exI[of _ "[]"]) (simp add: placedEvents_def replayEvents_Nil)
  qed
qed

lemma placeTasks_grown: "grown p (snd (placeTasks cfg rules allBlocks curH random i p ts))"
proof (induction ts arbitrary: p i)
  case Nil then show ?case by (simp add: grown_refl)
next
  case (Cons t ts)
  show ?case
    by (simp add: Let_def)
       (rule grown_trans[OF processTask_grown Cons])
qed

lemma placementPass_grown:
  "grown \<lparr>p_currentBalance = currentBalance c, finalBets = ub,
           p_betsChanged = betsChanged c, p_tasksChanged = tasksChanged c\<rparr>
     (snd (placementPass cfg rules allBlocks curH random c ub))"
  by (simp add: placementPass_def Let_def placeTasks_grown) (simp add: grown_def placedEvents_def replayEvents_Nil)

subsection \<open>One step of a history\<close>

lemma engine_events:
  fixes cfg rules allBlocks random s
  defines "s' \<equiv> engine cfg rules allBlocks random s"
  defines "E \<equiv> stepEvents (bets s) (bets s')"
  shows "balance s' = replayEvents (balance s) E"
    and "\<forall>w \<in> set (bets s'). status w \<noteq> PENDING \<longrightarrow>
           w \<in> set (bets s) \<or> replaysStamp (balance s) E w"
proof -
  have "balance s' = replayEvents (balance s) E
    \<and> (\<forall>w \<in> set (bets s'). status w \<noteq> PENDING \<longrightarrow>
           w \<in> set (bets s) \<or> replaysStamp (balance s) E w)"
  proof (cases allBlocks)
    case Nil
    then have "s' = s" by (simp add: s'_def engine_def)
    then show ?thesis by (simp add: E_def stepEvents_same replayEvents_Nil)
  next
    case (Cons b0 rest)
    let ?r = "settleBets (b0 # rest) (startCycle s) (bets s)"
    let ?p = "snd (placementPass cfg rules (b0 # rest) (height b0) random (fst ?r) (snd ?r))"
    let ?S = "settledEvents (bets s) (snd ?r)"
    have b: "bets s' = finalBets ?p" and bal: "balance s' = p_currentBalance ?p"
      unfolding s'_def Cons by (rule engine_commit)+
    from placementPass_grown[of "fst ?r" "snd ?r" cfg rules "b0 # rest" "height b0" random]
    obtain new where new: "finalBets ?p = new @ snd ?r"
      "list_all (\<lambda>w. status w = PENDING) new"
      "p_currentBalance ?p = replayEvents (currentBalance (fst ?r)) (placedEvents new)"
      unfolding grown_def by auto
    have len: "length (snd ?r) = length (bets s)" by (rule settleBets_length)
    have E: "E = ?S @ placedEvents new"
      unfolding E_def b new(1) by (rule stepEvents_grown[OF len])
    from settleBets_events[of "b0 # rest" "startCycle s" "bets s"]
    have sb: "currentBalance (fst ?r) = replayEvents (balance s) ?S"
      and sw: "\<And>w. w \<in> set (snd ?r) \<Longrightarrow> w \<in> set (bets s) \<or> replaysStamp (balance s) ?S w"
      by (simp_all add: startCycle_def)
    have "balance s' = replayEvents (balance s) E"
      unfolding bal new(3) E sb by (simp add: replayEvents_append)
    moreover have "w \<in> set (bets s) \<or> replaysStamp (balance s) E w"
      if "w \<in> set (bets s')" "status w \<noteq> PENDING" for w
    proof -
      from that(1) have "w \<in> set new \<or> w \<in> set (snd ?r)" unfolding b new(1) by simp
      moreover have "w \<notin> set new" using new(2) that(2) by (auto simp: list_all_iff)
      ultimately have "w \<in> set (snd ?r)" by simp
      from sw[OF this] show ?thesis unfolding E by (auto intro: replaysStamp_append)
    qed
    ultimately show ?thesis by blast
  qed
  then show "balance s' = replayEvents (balance s) E"
    and "\<forall>w \<in> set (bets s'). status w \<noteq> PENDING \<longrightarrow>
           w \<in> set (bets s) \<or> replaysStamp (balance s) E w"
    by blast+
qed

lemma placeBet_events:
  fixes cfg h ty tg amt src rule tid s
  defines "s' \<equiv> snd (placeBet cfg h ty tg amt src rule tid s)"
  defines "E \<equiv> stepEvents (bets s) (bets s')"
  shows "balance s' = replayEvents (balance s) E"
    and "\<forall>w \<in> set (bets s'). status w \<noteq> PENDING \<longrightarrow>
           w \<in> set (bets s) \<or> replaysStamp (balance s) E w"
proof -
  let ?nb = "\<lparr>taskId = tid, ruleId = rule_id rule, targetHeight = h,
              betType = ty, prediction = tg, amount = amt, odds = cfg_odds cfg,
              status = PENDING, payout = 0, balanceAfter = 0\<rparr>"
  consider (dup) "s' = s"
    | (new) "bets s' = [?nb] @ bets s" "balance s' = dbl (balance s - amt)"
    unfolding s'_def by (cases "fst (placeBet cfg h ty tg amt src rule tid s)")
      (auto simp: placeBet_def Let_def split: if_splits)
  then have "balance s' = replayEvents (balance s) E
    \<and> (\<forall>w \<in> set (bets s'). status w \<noteq> PENDING \<longrightarrow>
           w \<in> set (bets s) \<or> replaysStamp (balance s) E w)"
  proof cases
    case dup
    then show ?thesis by (simp add: E_def stepEvents_same replayEvents_Nil)
  next
    case new
    have "E = settledEvents (bets s) (bets s) @ placedEvents [?nb]"
      unfolding E_def new(1) by (rule stepEvents_grown) simp
    then have E: "E = [Placed ?nb]" by (simp add: settledEvents_same placedEvents_def)
    show ?thesis
      unfolding E new by (auto simp: replayEvents_Cons replayEvents_Nil)
  qed
  then show "balance s' = replayEvents (balance s) E"
    and "\<forall>w \<in> set (bets s'). status w \<noteq> PENDING \<longrightarrow>
           w \<in> set (bets s) \<or> replaysStamp (balance s) E w"
    by blast+
qed

lemma replay_step:
  assumes "balance s = replayEvents init evs"
    and "\<forall>w \<in> set (bets s). status w \<noteq> PENDING \<longrightarrow> replaysStamp init evs w"
    and "balance s' = replayEvents (balance s) E"
    and "\<forall>w \<in> set (bets s'). status w \<noteq> PENDING \<longrightarrow>
           w \<in> set (bets s) \<or> replaysStamp (balance s) E w"
  shows "balance s' = replayEvents init (evs @ E)
    \<and> (\<forall>w \<in> set (bets s'). status w \<noteq> PENDING \<longrightarrow> replaysStamp init (evs @ E) w)"
proof (intro conjI ballI impI)
  show "balance s' = replayEvents init (evs @ E)"
    using assms(1,3) by (simp add: replayEvents_append)
  fix w assume w: "w \<in> set (bets s')" "status w \<noteq> PENDING"
  with assms(4) consider "w \<in> set (bets s)" | "replaysStamp (balance s) E w" by blast
  then show "replaysStamp init (evs @ E) w"
  proof cases
    case 1
    with assms(2) w(2) show ?thesis by (auto intro: replaysStamp_append)
  next
    case 2
    then show ?thesis unfolding assms(1) by (rule replaysStamp_shift)
  qed
qed

lemma history_replay:
  "history cfg0 cfg evs s \<Longrightarrow>
   balance s = replayEvents (initialBalance cfg0) evs
   \<and> (\<forall>w \<in> set (bets s). status w \<noteq> PENDING \<longrightarrow> replaysStamp (initialBalance cfg0) evs w)"
proof (induction rule: history.induct)
  case (h_fresh s)
  then show ?case by (simp add: replayEvents_Nil)
next
  case (h_manual cfg evs s s' h ty tg amt rule)
  show ?case
    using h_manual.IH placeBet_events[of cfg h ty tg amt SRC_MANUAL rule None s]
    unfolding h_manual.hyps(2)
    by (intro replay_step) blast+
next
  case (h_cycle cfg evs s s' rules allBlocks random)
  show ?case
    using h_cycle.IH engine_events[of cfg rules allBlocks random s]
    unfolding h_cycle.hyps(2)
    by (intro replay_step) blast+
next
  case (h_edit cfg evs s ts)
  then show ?case by simp
next
  case (h_config cfg evs s cfg')
  then show ?case by simp
qed

subsection \<open>The events account for the ledger\<close>

lemma placedOf_append: "placedOf (xs @ ys) = placedOf xs @ placedOf ys"
  by (induction xs rule: placedOf.induct) simp_all

lemma settledOf_append: "settledOf (xs @ ys) = settledOf xs @ settledOf ys"
  by (induction xs rule: settledOf.induct) simp_all

lemma placedOf_placedEvents: "placedOf (placedEvents new) = rev new"
proof -
  have "placedOf (map Placed xs) = xs" for xs by (induction xs) simp_all
  then show ?thesis by (simp add: placedEvents_def)
qed

lemma settledOf_placedEvents: "settledOf (placedEvents new) = []"
proof -
  have "settledOf (map Placed xs) = []" for xs by (induction xs) simp_all
  then show ?thesis by (simp add: placedEvents_def)
qed

lemma placedOf_settledEvents: "placedOf (settledEvents old old') = []"
  by (induction old old' rule: settledEvents.induct) simp_all

lemma settleBets_settled:
  "set (filter isSettled (snd (settleBets blocks c bs)))
     = set (filter isSettled bs) \<union> set (settledOf (settledEvents bs (snd (settleBets blocks c bs))))
   \<and> length (filter isSettled (snd (settleBets blocks c bs)))
     = length (filter isSettled bs)
       + length (settledOf (settledEvents bs (snd (settleBets blocks c bs))))"
proof (induction bs arbitrary: c)
  case Nil
  then show ?case by simp
next
  case (Cons b bs)
  let ?r = "settleBet blocks c b"
  let ?rs = "settleBets blocks (fst ?r) bs"
  have res: "snd (settleBets blocks c (b # bs)) = snd ?r # snd ?rs"
    by (simp add: Let_def)
  note ih = Cons[of "fst ?r"]
  from settleBet_cases[of blocks c b]
  consider (same) "?r = (c, b)"
    | (settled) "status b = PENDING" "status (snd ?r) \<noteq> PENDING"
    by blast
  then show ?case
  proof cases
    case same
    then have ev: "settledEvents (b # bs) (snd ?r # snd ?rs) = settledEvents bs (snd ?rs)"
      and sb: "snd ?r = b" by simp_all
    show ?thesis unfolding res ev using ih by (auto simp: sb)
  next
    case settled
    have ev: "settledEvents (b # bs) (snd ?r # snd ?rs) = Settled (snd ?r) # settledEvents bs (snd ?rs)"
      using settled by simp
    show ?thesis unfolding res ev using ih settled by (auto simp: isSettled_def)
  qed
qed

lemma ledgerStep_same: "ledgerStep old old []"
  by (simp add: ledgerStep_def)

lemma ledgerStep_grown:
  assumes "map wagerPlaced old' = map wagerPlaced old"
    and "list_all (\<lambda>w. status w = PENDING) new"
    and "placedOf S = []"
    and "set (filter isSettled old') = set (filter isSettled old) \<union> set (settledOf S)"
    and "length (filter isSettled old') = length (filter isSettled old) + length (settledOf S)"
  shows "ledgerStep old (new @ old') (S @ placedEvents new)"
proof -
  have "filter isSettled new = []"
    using assms(2) by (auto simp: list_all_iff isSettled_def filter_empty_conv)
  then show ?thesis
    unfolding ledgerStep_def
    using assms(1,3,4,5)
    by (simp add: placedOf_append settledOf_append placedOf_placedEvents settledOf_placedEvents
          rev_map [symmetric])
qed

lemma ledger_step:
  assumes "ledgerOf evs old" "ledgerStep old new E"
  shows "ledgerOf (evs @ E) new"
  using assms unfolding ledgerOf_def ledgerStep_def
  by (simp add: placedOf_append settledOf_append)


lemma engine_ledger:
  "ledgerStep (bets s) (bets (engine cfg rules allBlocks random s))
     (stepEvents (bets s) (bets (engine cfg rules allBlocks random s)))"
proof (cases allBlocks)
  case Nil
  then have "engine cfg rules allBlocks random s = s" by (simp add: engine_def)
  then show ?thesis by (simp add: stepEvents_same ledgerStep_same)
next
  case (Cons b0 rest)
  let ?r = "settleBets (b0 # rest) (startCycle s) (bets s)"
  let ?p = "snd (placementPass cfg rules (b0 # rest) (height b0) random (fst ?r) (snd ?r))"
  let ?S = "settledEvents (bets s) (snd ?r)"
  have b: "bets (engine cfg rules allBlocks random s) = finalBets ?p"
    unfolding Cons by (rule engine_commit)
  from placementPass_grown[of "fst ?r" "snd ?r" cfg rules "b0 # rest" "height b0" random]
  obtain new where new: "finalBets ?p = new @ snd ?r"
    "list_all (\<lambda>w. status w = PENDING) new"
    unfolding grown_def by auto
  have len: "length (snd ?r) = length (bets s)" by (rule settleBets_length)
  have E: "stepEvents (bets s) (new @ snd ?r) = ?S @ placedEvents new"
    by (rule stepEvents_grown[OF len])
  have pl: "map wagerPlaced (snd ?r) = map wagerPlaced (bets s)" by (rule settleBets_placed)
  from settleBets_settled[of "b0 # rest" "startCycle s" "bets s"]
  have st: "set (filter isSettled (snd ?r)) = set (filter isSettled (bets s)) \<union> set (settledOf ?S)"
    "length (filter isSettled (snd ?r)) = length (filter isSettled (bets s)) + length (settledOf ?S)"
    by blast+
  show ?thesis
    unfolding b new(1) E
    by (rule ledgerStep_grown[OF pl new(2) placedOf_settledEvents st])
qed

lemma placeBet_ledger:
  "ledgerStep (bets s) (bets (snd (placeBet cfg h ty tg amt src rule tid s)))
     (stepEvents (bets s) (bets (snd (placeBet cfg h ty tg amt src rule tid s))))"
proof -
  let ?s' = "snd (placeBet cfg h ty tg amt src rule tid s)"
  let ?nb = "\<lparr>taskId = tid, ruleId = rule_id rule, targetHeight = h,
              betType = ty, prediction = tg, amount = amt, odds = cfg_odds cfg,
              status = PENDING, payout = 0, balanceAfter = 0\<rparr>"
  consider (dup) "?s' = s" | (new) "bets ?s' = [?nb] @ bets s"
    by (cases "fst (placeBet cfg h ty tg amt src rule tid s)")
       (auto simp: placeBet_def Let_def split: if_splits)
  then show ?thesis
  proof cases
    case dup
    then show ?thesis by (simp add: stepEvents_same ledgerStep_same)
  next
    case new
    have E: "stepEvents (bets s) ([?nb] @ bets s) = settledEvents (bets s) (bets s) @ placedEvents [?nb]"
      by (rule stepEvents_grown) simp
    have "ledgerStep (bets s) ([?nb] @ bets s) (settledEvents (bets s) (bets s) @ placedEvents [?nb])"
      by (rule ledgerStep_grown) (simp_all add: settledEvents_same)
    then show ?thesis unfolding new E .
  qed
qed

lemma history_ledger: "history cfg0 cfg evs s \<Longrightarrow> ledgerOf evs (bets s)"
proof (induction rule: history.induct)
  case (h_fresh s)
  then show ?case by (simp add: ledgerOf_def)
next
  case (h_manual cfg evs s s' h ty tg amt rule)
  show ?case
    unfolding h_manual.hyps(2)
    by (rule ledger_step[OF h_manual.IH placeBet_ledger])
next
  case (h_cycle cfg evs s s' rules allBlocks random)
  show ?case
    unfolding h_cycle.hyps(2)
    by (rule ledger_step[OF h_cycle.IH engine_ledger])
next
  case (h_edit cfg evs s ts)
  then show ?case by simp
next
  case (h_config cfg evs s cfg')
  then show ?case by simp
qed

lemma engine_tasks_on_stop:
  assumes "globalStop cfg (currentBalance (fst (settleBets (b0 # rest) (startCycle s) (bets s))))"
  shows "tasks (engine cfg rules (b0 # rest) random s) =
    (let c = fst (settleBets (b0 # rest) (startCycle s) (bets s)) in
     if list_ex isActive (nextTasks c) then map (\<lambda>t. t\<lparr>isActive := False\<rparr>) (nextTasks c)
     else if tasksChanged c then nextTasks c else tasks s)"
    and "finalBets (snd (placementPass cfg rules (b0 # rest) (height b0) random
            (fst (settleBets (b0 # rest) (startCycle s) (bets s)))
            (snd (settleBets (b0 # rest) (startCycle s) (bets s)))))
          = snd (settleBets (b0 # rest) (startCycle s) (bets s))"
    and "p_currentBalance (snd (placementPass cfg rules (b0 # rest) (height b0) random
            (fst (settleBets (b0 # rest) (startCycle s) (bets s)))
            (snd (settleBets (b0 # rest) (startCycle s) (bets s)))))
          = currentBalance (fst (settleBets (b0 # rest) (startCycle s) (bets s)))"
  using assms by (simp_all add: engine_def placementPass_def Let_def)

section \<open>The heuristic predictor: the entropy draw\<close>

lemma entropy_lt_40:
  assumes "0 \<le> r" "r < 1"
  shows "mathRound (r * 20 + 10) < 40" "10 \<le> mathRound (r * 20 + 10)" "mathRound (r * 20 + 10) \<le> 30"
proof -
  have "r * 20 + 10 + 1 / 2 < 31" using assms by simp
  then have "\<lfloor>r * 20 + 10 + 1 / 2\<rfloor> < 31" by (simp add: floor_less_iff)
  then show "mathRound (r * 20 + 10) < 40" "mathRound (r * 20 + 10) \<le> 30" by (simp_all add: mathRound_def)
  have "10 \<le> r * 20 + 10 + 1 / 2" using assms by simp
  then show "10 \<le> mathRound (r * 20 + 10)" unfolding mathRound_def by (simp add: le_floor_iff)
qed

lemma shouldPredict_eq:
  "shouldPredict (runAIAnalysis blocks rule r)
    = ((confP (runAIAnalysis blocks rule r) \<ge> 92 \<or> confS (runAIAnalysis blocks rule r) \<ge> 92)
       \<and> mathRound (r * 20 + 10) < 40)"
proof (cases "length (take 80 (filter (\<lambda>b. checkRuleAlignment (height b) rule) blocks)) < 24")
  case True
  then show ?thesis unfolding runAIAnalysis_def Let_def by (simp only: if_True) simp
next
  case False
  then show ?thesis unfolding runAIAnalysis_def Let_def
    by (simp only: if_False AIAnalysis.simps)
qed

lemma runAIAnalysis_draw:
  "runAIAnalysis blocks rule r =
     (runAIAnalysis blocks rule 0)\<lparr>shouldPredict :=
        (confP (runAIAnalysis blocks rule 0) \<ge> 92 \<or> confS (runAIAnalysis blocks rule 0) \<ge> 92)
        \<and> mathRound (r * 20 + 10) < 40\<rparr>"
proof (cases "length (take 80 (filter (\<lambda>b. checkRuleAlignment (height b) rule) blocks)) < 24")
  case True
  then show ?thesis unfolding runAIAnalysis_def Let_def by (simp only: if_True) simp
next
  case False
  then show ?thesis unfolding runAIAnalysis_def Let_def
    by (simp only: if_False AIAnalysis.simps AIAnalysis.update_convs)
qed


section \<open>The claims\<close>

lemmas ex_defs = exRule1_def exRule20_def exRuleFrom100_def exBlock_def exConfig_def exStopConfig_def
  exKellyConfig_def exFixedOdd_def exFlatTask_def exKellyTask_def exMartingaleTask_def exState_def
  exPendingOdd40_def noDraw_def exSecondWindow_def

lemmas engine_defs = engine_def placementPass_def startCycle_def processTask_def standardTask_def
  decideBet_def stakeAmount_def placeNew_def isDupe_def globalStop_def getNextTargetHeight_def
  checkRuleAlignment_def createTask_def Let_def jsRem_def kellyAmount_def kellyF_def kellyFractionOf_def
  settleBet_def truthyId_def settleTask_def updateStats_def advanceState_def dbl_eval

lemma exFirstCycle_eval:
  "exFirstCycle = exState 9900 [exPendingOdd40] [exFlatTask]"
  by (simp add: exFirstCycle_def ex_defs engine_defs)

lemma exManual_eval:
  "exManual = exState 9800 [exPendingOdd40\<lparr>taskId := None, prediction := EVEN\<rparr>, exPendingOdd40] [exFlatTask]"
  by (simp add: exManual_def exFirstCycle_eval placeBet_def Let_def) (simp add: ex_defs truthyId_def dbl_eval)

lemma exHistManual_eval:
  "exHistManual = exState 9997 [exPendingOdd40\<lparr>taskId := None, amount := 3\<rparr>] [exFlatTask]"
  by (simp add: exHistManual_def exFresh_def placeBet_def ex_defs dbl_eval)

lemma exHistPlaced_eval:
  "exHistPlaced
     = exState 9897 [exPendingOdd40, exPendingOdd40\<lparr>taskId := None, amount := 3\<rparr>] [exFlatTask]"
  by (simp add: exHistPlaced_def exHistManual_eval) (simp add: ex_defs engine_defs)

lemma exHistSettled_eval:
  "bets exHistSettled =
     [exPendingOdd40\<lparr>targetHeight := 60\<rparr>,
      exPendingOdd40\<lparr>status := WIN, payout := 198, balanceAfter := 10095\<rparr>,
      exPendingOdd40\<lparr>taskId := None, amount := 3, status := WIN,
        payout := 3343922723322593 / 562949953421312,
        balanceAfter := 5553050490733855 / 549755813888\<rparr>]"
  "balance exHistSettled = 5498074909345055 / 549755813888"
  by (simp_all add: exHistSettled_def exHistPlaced_eval) (simp_all add: ex_defs engine_defs)

lemma exHistory:
  "history exConfig exConfig [Placed (exPendingOdd40\<lparr>taskId := None, amount := 3\<rparr>)] exHistManual"
  "history exConfig exConfig exHistEvents exHistSettled"
proof -
  have h0: "history exConfig exConfig [] exFresh"
    by (rule history.h_fresh) (simp_all add: exFresh_def ex_defs)
  have e1: "stepEvents (bets exFresh) (bets exHistManual)
      = [Placed (exPendingOdd40\<lparr>taskId := None, amount := 3\<rparr>)]"
    by (simp add: exHistManual_eval exFresh_def)
       (simp add: ex_defs stepEvents_def placedEvents_def)
  have e2: "stepEvents (bets exHistManual) (bets exHistPlaced) = [Placed exPendingOdd40]"
    by (simp add: exHistManual_eval exHistPlaced_eval)
       (simp add: ex_defs stepEvents_def placedEvents_def)
  have e3: "stepEvents (bets exHistPlaced) (bets exHistSettled) = drop 2 exHistEvents"
    by (simp add: exHistPlaced_eval exHistSettled_eval exHistEvents_def)
       (simp add: ex_defs stepEvents_def placedEvents_def)
  from history.h_manual[OF h0 exHistManual_def]
  show h1: "history exConfig exConfig [Placed (exPendingOdd40\<lparr>taskId := None, amount := 3\<rparr>)]
      exHistManual"
    by (simp add: e1)
  from history.h_cycle[OF h1 exHistPlaced_def]
  have h2: "history exConfig exConfig (take 2 exHistEvents) exHistPlaced"
    by (simp add: e2 exHistEvents_def)
  from history.h_cycle[OF h2 exHistSettled_def]
  show "history exConfig exConfig exHistEvents exHistSettled" by (simp add: e3)
qed

text \<open>
  Claim C1, as the code has it. Take any history of the component from a fresh
  account: manual wagers, engine cycles on any block windows, edits of the task list,
  edits of the configuration. As long as \<open>initialBalance\<close> of the current configuration
  is the value the account started from, the live balance is the replay of the events
  so far from \<open>initialBalance\<close>, each stake debited at placement and each payout credited
  at settlement in the order of the settlement pass, computed with the engine's double
  operations. The events are those of the ledger: the placements are its wagers, oldest
  first, and the settlements are its settled wagers, each once. And every settled wager
  of the ledger carries as \<open>balanceAfter\<close> the balance the replay has reached right after
  its settlement, and as \<open>payout\<close> its stake times its odds when won and 0 when lost.
\<close>

theorem bankroll_replay:
  assumes "history cfg0 cfg evs s"
    and "initialBalance cfg = initialBalance cfg0"
  shows "balance s = replayEvents (initialBalance cfg) evs
    \<and> map wagerPlaced (placedOf evs) = map wagerPlaced (rev (bets s))
    \<and> set (settledOf evs) = set (filter isSettled (bets s))
    \<and> length (settledOf evs) = length (filter isSettled (bets s))
    \<and> (\<forall>w \<in> set (bets s). isSettled w \<longrightarrow>
         (\<exists>k < length evs. evs ! k = Settled w
            \<and> balanceAfter w = replayEvents (initialBalance cfg) (take (Suc k) evs)
            \<and> payout w = replayPayout w))"
  using history_replay[OF assms(1)] history_ledger[OF assms(1)] assms(2)
  unfolding replaysStamp_def ledgerOf_def isSettled_def by simp

theorem bankroll_replay_witness:
  "history exConfig exConfig exHistEvents exHistSettled
   \<and> map status (bets exHistSettled) = [PENDING, WIN, WIN]
   \<and> balance exHistSettled = replayEvents 10000 exHistEvents
   \<and> balance exHistSettled = 5498074909345055 / 549755813888
   \<and> map balanceAfter (bets exHistSettled) = [0, 10095, 5553050490733855 / 549755813888]
   \<and> map (\<lambda>k. replayEvents 10000 (take k exHistEvents)) [0, 1, 2, 3, 4, 5]
       = [10000, 9997, 9897, 10095, 5553050490733855 / 549755813888,
          5498074909345055 / 549755813888]
   \<and> map amount (placedOf exHistEvents) = [3, 100, 100]
   \<and> settledOf exHistEvents = [bets exHistSettled ! 1, bets exHistSettled ! 2]
   \<and> (\<exists>k < length exHistEvents.
         exHistEvents ! k = Settled (bets exHistSettled ! 2)
         \<and> balanceAfter (bets exHistSettled ! 2) = replayEvents 10000 (take (Suc k) exHistEvents)
         \<and> payout (bets exHistSettled ! 2) = replayPayout (bets exHistSettled ! 2))"
proof -
  have ib: "initialBalance exConfig = 10000" by (simp add: exConfig_def)
  have st: "map status (bets exHistSettled) = [PENDING, WIN, WIN]"
    by (simp add: exHistSettled_eval) (simp add: ex_defs)
  have w: "bets exHistSettled ! 2 \<in> set (bets exHistSettled)"
    "isSettled (bets exHistSettled ! 2)"
    by (simp_all add: exHistSettled_eval ex_defs isSettled_def)
  from bankroll_replay[OF exHistory(2) refl] w
  have a: "balance exHistSettled = replayEvents 10000 exHistEvents"
    and b: "\<exists>k < length exHistEvents.
         exHistEvents ! k = Settled (bets exHistSettled ! 2)
         \<and> balanceAfter (bets exHistSettled ! 2) = replayEvents 10000 (take (Suc k) exHistEvents)
         \<and> payout (bets exHistSettled ! 2) = replayPayout (bets exHistSettled ! 2)"
    unfolding ib by blast+
  have c: "map balanceAfter (bets exHistSettled) = [0, 10095, 5553050490733855 / 549755813888]"
    by (simp add: exHistSettled_eval) (simp add: ex_defs)
  have d: "map (\<lambda>k. replayEvents 10000 (take k exHistEvents)) [0, 1, 2, 3, 4, 5]
       = [10000, 9997, 9897, 10095, 5553050490733855 / 549755813888,
          5498074909345055 / 549755813888]"
    by (simp add: exHistEvents_def replayEvents_def replayPayout_def ex_defs dbl_eval)
  have e: "map amount (placedOf exHistEvents) = [3, 100, 100]"
    by (simp add: exHistEvents_def ex_defs)
  have f: "settledOf exHistEvents = [bets exHistSettled ! 1, bets exHistSettled ! 2]"
    by (simp add: exHistEvents_def exHistSettled_eval)
  from exHistory(2) st a exHistSettled_eval(2) c d e f b show ?thesis by blast
qed

text \<open>
  The claim as stated (the replay from \<open>initialBalance\<close> gives the live balance at every
  point in time) fails once the operator edits the initial balance in the settings
  panel: the input changes \<open>config.initialBalance\<close> and leaves the balance alone. After a
  manual wager of 3 on a fresh default account and the edit to 5000, the balance is
  9997 and the replay from \<open>initialBalance\<close> gives 4997.
\<close>

theorem bankroll_replay_edited_counterexample:
  "history exConfig exEditedConfig [Placed (exPendingOdd40\<lparr>taskId := None, amount := 3\<rparr>)]
     exHistManual
   \<and> initialBalance exEditedConfig = 5000
   \<and> balance exHistManual = 9997
   \<and> replayEvents (initialBalance exEditedConfig)
        [Placed (exPendingOdd40\<lparr>taskId := None, amount := 3\<rparr>)] = 4997
   \<and> balance exHistManual
       \<noteq> replayEvents (initialBalance exEditedConfig)
            [Placed (exPendingOdd40\<lparr>taskId := None, amount := 3\<rparr>)]"
proof -
  have "history exConfig exEditedConfig [Placed (exPendingOdd40\<lparr>taskId := None, amount := 3\<rparr>)]
     exHistManual"
    by (rule history.h_config[OF exHistory(1)])
  moreover have "balance exHistManual = 9997"
    by (simp add: exHistManual_eval) (simp add: ex_defs)
  moreover have "replayEvents (initialBalance exEditedConfig)
        [Placed (exPendingOdd40\<lparr>taskId := None, amount := 3\<rparr>)] = 4997"
    by (simp add: exEditedConfig_def ex_defs replayEvents_def dbl_eval)
  moreover have "initialBalance exEditedConfig = 5000"
    by (simp add: exEditedConfig_def)
  ultimately show ?thesis by simp
qed

lemma processTask_one_new:
  "finalBets (snd (processTask cfg rules allBlocks curH random task p)) = finalBets p
   \<or> (\<exists>b. finalBets (snd (processTask cfg rules allBlocks curH random task p)) = b # finalBets p
           \<and> betKey b \<notin> set (map betKey (finalBets p)))"
proof -
  from processTask_cases[of cfg task p rules allBlocks curH random]
  consider (a) "placedBy cfg task p (snd (processTask cfg rules allBlocks curH random task p))"
    | (b) "processTask cfg rules allBlocks curH random task p
        = (task\<lparr>isActive := False\<rparr>, p\<lparr>p_tasksChanged := True\<rparr>)" by blast
  then show ?thesis
  proof cases
    case a
    then show ?thesis unfolding placedBy_def
      by (auto simp: isDupe_iff placeNew_def Let_def betKey_def)
  next
    case b
    then show ?thesis by simp
  qed
qed

lemma placeBet_manual_refuses:
  assumes "list_ex (\<lambda>b. betKey b = (rule_id rule, h, None)) (bets s)"
  shows "placeBet cfg h ty tg amt SRC_MANUAL rule None s = (False, s)"
proof -
  from assms have "list_ex (\<lambda>b. targetHeight b = h \<and> ruleId b = rule_id rule \<and> \<not> truthyId (taskId b)) (bets s)"
    by (auto simp: list_ex_iff betKey_def truthyId_def)
  then show ?thesis by (simp add: placeBet_def Let_def)
qed

text \<open>
  Claim C2. In every reachable state the ledger holds at most one wager for each
  combination of rule, target height and source (the task id, or none for a manual
  wager), and this still holds after a manual placement and after an engine cycle. The
  manual gateway returns \<open>false\<close> and changes nothing when a manual wager for the
  combination exists, and a task of the orchestrator adds at most one wager, for a
  combination that is not yet in the ledger.
\<close>

theorem no_duplicate_wagers:
  assumes "reachable init s"
  shows "noDuplicateWagers (bets s)
    \<and> noDuplicateWagers (bets (snd (placeBet cfg h ty tg amt SRC_MANUAL rule None s)))
    \<and> noDuplicateWagers (bets (engine cfg rules allBlocks random s))
    \<and> (list_ex (\<lambda>b. betKey b = (rule_id rule, h, None)) (bets s)
         \<longrightarrow> placeBet cfg h ty tg amt SRC_MANUAL rule None s = (False, s))
    \<and> (\<forall>curH draws task p.
          finalBets (snd (processTask cfg rules allBlocks curH draws task p)) = finalBets p
          \<or> (\<exists>b. finalBets (snd (processTask cfg rules allBlocks curH draws task p)) = b # finalBets p
                  \<and> betKey b \<notin> set (map betKey (finalBets p))))"
proof (intro conjI allI impI)
  show "noDuplicateWagers (bets s)" using assms by (rule reachable_nodup)
  show "noDuplicateWagers (bets (snd (placeBet cfg h ty tg amt SRC_MANUAL rule None s)))"
    by (rule reachable_nodup[OF reachable.manual[OF assms]])
  show "noDuplicateWagers (bets (engine cfg rules allBlocks random s))"
    by (rule reachable_nodup[OF reachable.cycle[OF assms]])
next
  assume "list_ex (\<lambda>b. betKey b = (rule_id rule, h, None)) (bets s)"
  then show "placeBet cfg h ty tg amt SRC_MANUAL rule None s = (False, s)"
    by (rule placeBet_manual_refuses)
next
  fix curH draws task p
  show "finalBets (snd (processTask cfg rules allBlocks curH draws task p)) = finalBets p
          \<or> (\<exists>b. finalBets (snd (processTask cfg rules allBlocks curH draws task p)) = b # finalBets p
                  \<and> betKey b \<notin> set (map betKey (finalBets p)))"
    by (rule processTask_one_new)
qed

theorem no_duplicate_wagers_witness:
  "noDuplicateWagers (bets exManual)
   \<and> map betKey (bets exManual) = [(''r20'', 40, None), (''r20'', 40, Some ''t1'')]
   \<and> placeBet exConfig 40 PARITY ODD 100 SRC_MANUAL exRule20 None exManual = (False, exManual)
   \<and> bets (engine exConfig [exRule20] [exBlock 25 EVEN SMALL] noDraw exManual) = bets exManual"
proof -
  have r: "reachable 10000 exManual"
    unfolding exManual_def exFirstCycle_def exState_def
    by (intro reachable.manual reachable.cycle reachable.fresh)
  have k: "map betKey (bets exManual) = [(''r20'', 40, None), (''r20'', 40, Some ''t1'')]"
    by (simp add: exManual_eval) (simp add: ex_defs betKey_def)
  have pre: "list_ex (\<lambda>b. betKey b = (rule_id exRule20, 40, None)) (bets exManual)"
    by (simp add: exManual_eval) (simp add: ex_defs betKey_def)
  have e: "bets (engine exConfig [exRule20] [exBlock 25 EVEN SMALL] noDraw exManual) = bets exManual"
    by (simp add: exManual_eval) (simp add: ex_defs engine_defs)
  from no_duplicate_wagers[OF r, of exConfig 40 PARITY ODD 100 exRule20] pre
  have "noDuplicateWagers (bets exManual)"
    and "placeBet exConfig 40 PARITY ODD 100 SRC_MANUAL exRule20 None exManual = (False, exManual)"
    by blast+
  with k e show ?thesis by simp
qed

text \<open>
  Claim C3. Running the settlement pass again on its own result, with the same block
  window, returns that result unchanged: the balance, the peak and drawdown, the tasks
  and every wager stay as they are. A wager that is already \<open>WIN\<close> or \<open>LOSS\<close> is returned
  as it is, with nothing credited.
\<close>

theorem settlement_idempotent:
  "settleBets blocks (fst (settleBets blocks c bs)) (snd (settleBets blocks c bs))
     = settleBets blocks c bs
   \<and> settleBet blocks c (b\<lparr>status := WIN\<rparr>) = (c, b\<lparr>status := WIN\<rparr>)
   \<and> settleBet blocks c (b\<lparr>status := LOSS\<rparr>) = (c, b\<lparr>status := LOSS\<rparr>)"
  by (simp add: settleBets_atRest settleBets_result_atRest settleBet_atRest atRest_def)

theorem settlement_idempotent_witness:
  "snd (settleBets exSecondWindow (startCycle exFirstCycle) (bets exFirstCycle))
     = [exPendingOdd40\<lparr>status := WIN, payout := 198, balanceAfter := 10098\<rparr>]
   \<and> currentBalance (fst (settleBets exSecondWindow (startCycle exFirstCycle) (bets exFirstCycle))) = 10098
   \<and> settleBets exSecondWindow
        (fst (settleBets exSecondWindow (startCycle exFirstCycle) (bets exFirstCycle)))
        (snd (settleBets exSecondWindow (startCycle exFirstCycle) (bets exFirstCycle)))
      = settleBets exSecondWindow (startCycle exFirstCycle) (bets exFirstCycle)"
proof -
  have "snd (settleBets exSecondWindow (startCycle exFirstCycle) (bets exFirstCycle))
     = [exPendingOdd40\<lparr>status := WIN, payout := 198, balanceAfter := 10098\<rparr>]"
    by (simp add: exFirstCycle_eval) (simp add: ex_defs engine_defs)
  moreover have "currentBalance (fst (settleBets exSecondWindow (startCycle exFirstCycle) (bets exFirstCycle))) = 10098"
    by (simp add: exFirstCycle_eval) (simp add: ex_defs engine_defs)
  ultimately show ?thesis
    using settlement_idempotent[of exSecondWindow "startCycle exFirstCycle" "bets exFirstCycle"]
    by simp
qed

text \<open>
  Claim C6. In a cycle on a non-empty block window whose profit after settlement
  reaches the take-profit (when positive) or falls to minus the stop-loss (when
  positive), every task is inactive afterwards, the ledger holds the same wagers as
  before (settled where their block arrived, none added), and the balance is the one
  the settlement left.
\<close>

theorem global_stop_halts_cycle:
  assumes "allBlocks \<noteq> []"
    and "(takeProfit cfg > 0 \<and> settledBalance allBlocks s - initialBalance cfg \<ge> takeProfit cfg)
         \<or> (stopLoss cfg > 0 \<and> settledBalance allBlocks s - initialBalance cfg \<le> - stopLoss cfg)"
  shows "list_all (\<lambda>t. \<not> isActive t) (tasks (engine cfg rules allBlocks random s))
    \<and> map wagerPlaced (bets (engine cfg rules allBlocks random s)) = map wagerPlaced (bets s)
    \<and> balance (engine cfg rules allBlocks random s) = settledBalance allBlocks s"
proof -
  from assms(1) obtain b0 rest where ab: "allBlocks = b0 # rest" by (cases allBlocks) auto
  let ?r = "settleBets (b0 # rest) (startCycle s) (bets s)"
  let ?c = "fst ?r"
  have stop: "globalStop cfg (currentBalance ?c)"
    using assms(2) by (simp add: globalStop_def Let_def settledBalance_def ab)
  note on_stop = engine_tasks_on_stop[OF stop, of rules random]
  have bets: "bets (engine cfg rules (b0 # rest) random s) = snd ?r"
    using engine_commit(1)[of cfg rules b0 rest random s] on_stop(2) by simp
  have bal: "balance (engine cfg rules (b0 # rest) random s) = currentBalance ?c"
    using engine_commit(2)[of cfg rules b0 rest random s] on_stop(3) by simp
  have same: "nextTasks ?c = tasks s" if "\<not> tasksChanged ?c"
    using settleBets_tasks_unchanged_or_flag[of "b0 # rest" "startCycle s" "bets s"] that
    by (simp add: startCycle_def)
  have "list_all (\<lambda>t. \<not> isActive t) (tasks (engine cfg rules (b0 # rest) random s))"
  proof (cases "list_ex isActive (nextTasks ?c)")
    case True
    then show ?thesis by (simp add: on_stop(1) Let_def list_all_iff)
  next
    case False
    then have "list_all (\<lambda>t. \<not> isActive t) (nextTasks ?c)"
      by (simp add: list_all_iff list_ex_iff)
    with False same show ?thesis by (auto simp: on_stop(1) Let_def)
  qed
  moreover have "map wagerPlaced (bets (engine cfg rules (b0 # rest) random s)) = map wagerPlaced (bets s)"
    unfolding bets by (rule settleBets_placed)
  moreover have "balance (engine cfg rules (b0 # rest) random s) = settledBalance (b0 # rest) s"
    by (simp add: bal settledBalance_def)
  ultimately show ?thesis by (simp add: ab)
qed

theorem global_stop_halts_cycle_witness:
  "settledBalance exSecondWindow (exState 9500 [exPendingOdd40\<lparr>prediction := EVEN\<rparr>] [exFlatTask]) = 9500
   \<and> map isActive (tasks (engine exStopConfig [exRule20] exSecondWindow noDraw
        (exState 9500 [exPendingOdd40\<lparr>prediction := EVEN\<rparr>] [exFlatTask]))) = [False]
   \<and> map status (bets (engine exStopConfig [exRule20] exSecondWindow noDraw
        (exState 9500 [exPendingOdd40\<lparr>prediction := EVEN\<rparr>] [exFlatTask]))) = [LOSS]
   \<and> balance (engine exStopConfig [exRule20] exSecondWindow noDraw
        (exState 9500 [exPendingOdd40\<lparr>prediction := EVEN\<rparr>] [exFlatTask])) = 9500
   \<and> length (bets (engine exConfig [exRule20] exSecondWindow noDraw
        (exState 9500 [exPendingOdd40\<lparr>prediction := EVEN\<rparr>] [exFlatTask]))) = 2"
proof -
  let ?s = "exState 9500 [exPendingOdd40\<lparr>prediction := EVEN\<rparr>] [exFlatTask]"
  have sb: "settledBalance exSecondWindow ?s = 9500"
    by (simp add: settledBalance_def ex_defs engine_defs)
  have ne: "exSecondWindow \<noteq> []" by (simp add: exSecondWindow_def)
  have stop: "(takeProfit exStopConfig > 0
        \<and> settledBalance exSecondWindow ?s - initialBalance exStopConfig \<ge> takeProfit exStopConfig)
      \<or> (stopLoss exStopConfig > 0
        \<and> settledBalance exSecondWindow ?s - initialBalance exStopConfig \<le> - stopLoss exStopConfig)"
    by (simp add: sb) (simp add: ex_defs)
  have st: "map status (bets (engine exStopConfig [exRule20] exSecondWindow noDraw ?s)) = [LOSS]"
    by (simp add: ex_defs engine_defs)
  have ac: "map isActive (tasks (engine exStopConfig [exRule20] exSecondWindow noDraw ?s)) = [False]"
    by (simp add: ex_defs engine_defs)
  have other: "length (bets (engine exConfig [exRule20] exSecondWindow noDraw ?s)) = 2"
    by (simp add: ex_defs engine_defs)
  from global_stop_halts_cycle[OF ne stop, of "[exRule20]" noDraw] sb
  have "balance (engine exStopConfig [exRule20] exSecondWindow noDraw ?s) = 9500" by simp
  with sb st ac other show ?thesis by simp
qed

text \<open>
  Claim C7. A Martingale task created with base 100, multiplier 2 and maximal cycle 3
  places 100; after one lost wager 200; after two 400; after the third loss the stake is
  back at 100 with a loss streak of 0. From any state of the progression a won wager
  sets the stake to 100 and the loss streak to 0.
\<close>

theorem martingale_cycle:
  "(let t0 = createTask (cfg\<lparr>cfg_baseBet := 100\<rparr>)
               (sc\<lparr>stype := MARTINGALE, multiplier := 2, maxCycle := 3\<rparr>) rid tid;
        t1 = settleTask t0 b1 False 0;
        t2 = settleTask t1 b2 False 0;
        t3 = settleTask t2 b3 False 0
    in map (\<lambda>t. stakeAmount cfg' t conf bal) [t0, t1, t2, t3] = [100, 200, 400, 100]
       \<and> map (\<lambda>t. consecutiveLosses (state t)) [t0, t1, t2, t3] = [0, 1, 2, 0]
       \<and> (\<forall>st b pay. state (settleTask (t0\<lparr>state := st\<rparr>) b True pay)
             = st\<lparr>currentBetAmount := 100, consecutiveLosses := 0\<rparr>))"
  by (simp add: createTask_def settleTask_def advanceState_def stakeAmount_def dbl_eval)

text \<open>
  Claim C10 (different draws give different \<open>shouldPredict\<close> results for some input)
  against the code: for every block window and rule, any two draws from \<open>[0, 1)\<close> give
  the same analysis. The entropy value lies between 10 and 30, below the threshold 40,
  so \<open>shouldPredict\<close> is exactly the test that one confidence is at least 92.
\<close>

theorem entropy_draw_never_suppresses:
  assumes "0 \<le> r1" "r1 < 1" "0 \<le> r2" "r2 < 1"
  shows "runAIAnalysis blocks rule r1 = runAIAnalysis blocks rule r2
    \<and> shouldPredict (runAIAnalysis blocks rule r1)
        = (confP (runAIAnalysis blocks rule r1) \<ge> 92 \<or> confS (runAIAnalysis blocks rule r1) \<ge> 92)
    \<and> 10 \<le> mathRound (r1 * 20 + 10) \<and> mathRound (r1 * 20 + 10) \<le> 30"
proof (intro conjI)
  show "runAIAnalysis blocks rule r1 = runAIAnalysis blocks rule r2"
    using entropy_lt_40(1)[OF assms(1,2)] entropy_lt_40(1)[OF assms(3,4)]
    by (subst runAIAnalysis_draw[of _ _ r1], subst runAIAnalysis_draw[of _ _ r2]) (simp only:)
  show "shouldPredict (runAIAnalysis blocks rule r1)
      = (confP (runAIAnalysis blocks rule r1) \<ge> 92 \<or> confS (runAIAnalysis blocks rule r1) \<ge> 92)"
    using entropy_lt_40(1)[OF assms(1,2)] by (subst shouldPredict_eq) (simp only: simp_thms)
  show "10 \<le> mathRound (r1 * 20 + 10)" by (rule entropy_lt_40(2)[OF assms(1,2)])
  show "mathRound (r1 * 20 + 10) \<le> 30" by (rule entropy_lt_40(3)[OF assms(1,2)])
qed

lemma upto24: "rev [1 .. 24::int] = [24,23,22,21,20,19,18,17,16,15,14,13,12,11,10,9,8,7,6,5,4,3,2,1]"
  by code_simp

lemma exWindow_analysis:
  "runAIAnalysis exWindowOddBig exRule1 0
     = \<lparr>shouldPredict = True, nextP = Some ODD, confP = 95, nextS = None, confS = 0\<rparr>"
  by (simp add: exWindowOddBig_def exRule1_def exBlock_def upto24 runAIAnalysis_def Let_def
      checkRuleAlignment_def axisSignal_def checkPeriodicity_def checkDensity_def
      getBayesianConf_def firstIs_def mathRound_def)

theorem entropy_draw_never_suppresses_witness:
  "runAIAnalysis exWindowOddBig exRule1 (999 / 1000) = runAIAnalysis exWindowOddBig exRule1 0
   \<and> shouldPredict (runAIAnalysis exWindowOddBig exRule1 (999 / 1000))
   \<and> confP (runAIAnalysis exWindowOddBig exRule1 (999 / 1000)) = 95
   \<and> mathRound (999 / 1000 * 20 + 10) = 30"
proof -
  have "(0::rat) \<le> 999 / 1000" "(999 / 1000 :: rat) < 1" "(0::rat) \<le> 0" "(0::rat) < 1" by simp_all
  from entropy_draw_never_suppresses[OF this, of exWindowOddBig exRule1]
  have "runAIAnalysis exWindowOddBig exRule1 (999 / 1000) = runAIAnalysis exWindowOddBig exRule1 0"
    by simp
  moreover have "mathRound (999 / 1000 * 20 + 10) = 30"
    unfolding mathRound_def by (rule floor_unique) simp_all
  ultimately show ?thesis by (simp add: exWindow_analysis)
qed

text \<open>
  Claim C8, as the code has it. With the double operations \<open>b = odds - 1\<close>,
  \<open>p = confidence / 100\<close>, \<open>q = 1 - p\<close> and \<open>f = (b * p - q) / b\<close>, the stake of an
  \<open>AI_KELLY\<close> task is the Kelly amount: never above the bankroll; at least the
  configured base stake when the bankroll covers the base; for \<open>f > 0\<close> the floor of the
  double product bankroll times \<open>f\<close> times the risk fraction, raised to the base and then
  capped at the bankroll; for \<open>f \<le> 0\<close> the smaller of base and bankroll; and positive
  when base and bankroll are positive.
\<close>

theorem kelly_stake_clamped:
  "kellyAmount cfg task conf bal \<le> bal
   \<and> (cfg_baseBet cfg \<le> bal \<longrightarrow> cfg_baseBet cfg \<le> kellyAmount cfg task conf bal)
   \<and> (0 < kellyF (cfg_odds cfg) conf \<longrightarrow>
        kellyAmount cfg task conf bal
          = min (max (cfg_baseBet cfg)
                     (of_int \<lfloor>dbl (dbl (bal * kellyF (cfg_odds cfg) conf) * kellyFractionOf task)\<rfloor>))
                bal)
   \<and> (kellyF (cfg_odds cfg) conf \<le> 0 \<longrightarrow>
        kellyAmount cfg task conf bal = min (cfg_baseBet cfg) bal)
   \<and> (0 < cfg_baseBet cfg \<and> 0 < bal \<longrightarrow> 0 < kellyAmount cfg task conf bal)
   \<and> (stype (config task) = AI_KELLY \<longrightarrow>
        stakeAmount cfg task conf bal = kellyAmount cfg task conf bal)
   \<and> kellyF (cfg_odds cfg) conf
        = dbl (dbl (dbl (dbl (cfg_odds cfg - 1) * dbl (conf / 100)) - dbl (1 - dbl (conf / 100)))
               / dbl (cfg_odds cfg - 1))"
proof (intro conjI impI)
  show "kellyAmount cfg task conf bal \<le> bal"
    by (simp add: kellyAmount_def Let_def)
  show "cfg_baseBet cfg \<le> kellyAmount cfg task conf bal" if "cfg_baseBet cfg \<le> bal"
    using that by (simp add: kellyAmount_def Let_def)
  show "kellyAmount cfg task conf bal
          = min (max (cfg_baseBet cfg)
                     (of_int \<lfloor>dbl (dbl (bal * kellyF (cfg_odds cfg) conf) * kellyFractionOf task)\<rfloor>))
                bal"
    if "0 < kellyF (cfg_odds cfg) conf"
    using that by (simp add: kellyAmount_def Let_def)
  show "kellyAmount cfg task conf bal = min (cfg_baseBet cfg) bal"
    if "kellyF (cfg_odds cfg) conf \<le> 0"
    using that by (simp add: kellyAmount_def Let_def)
  show "0 < kellyAmount cfg task conf bal" if "0 < cfg_baseBet cfg \<and> 0 < bal"
    using that by (simp add: kellyAmount_def Let_def min_def max_def)
  show "stakeAmount cfg task conf bal = kellyAmount cfg task conf bal"
    if "stype (config task) = AI_KELLY"
    using that by (simp add: stakeAmount_def Let_def)
  show "kellyF (cfg_odds cfg) conf
        = dbl (dbl (dbl (dbl (cfg_odds cfg - 1) * dbl (conf / 100)) - dbl (1 - dbl (conf / 100)))
               / dbl (cfg_odds cfg - 1))"
    by (simp add: kellyF_def Let_def)
qed

text \<open>
  Under the default configuration (odds 1.98, base 100, risk fraction 0.2) and a
  confidence of 60, a bankroll of 9800 gives the stake 375: the double product is
  \<open>375.9999999999999\<close>, where the exact product of the decimal values is 376.
\<close>

theorem kelly_stake_clamped_witness:
  "kellyF (cfg_odds exConfig) 60 = 6911646775066555 / 36028797018963968
   \<and> dbl (dbl (9800 * kellyF (cfg_odds exConfig) 60) * kellyFractionOf exKellyTask)
       = 3307330976350207 / 8796093022208
   \<and> kellyAmount exConfig exKellyTask 60 9800 = 375
   \<and> \<lfloor>9800 * (47 / 245) * (2 / 10) :: rat\<rfloor> = 376
   \<and> kellyAmount exConfig exKellyTask 60 1000 = 100
   \<and> kellyAmount exConfig exKellyTask 95 10000 = 1797
   \<and> kellyF (cfg_odds exKellyConfig) 60 = - (1801439850948199 / 9007199254740992)
   \<and> kellyAmount exKellyConfig exKellyTask 60 1000 = 200"
proof -
  have f1: "kellyF (cfg_odds exConfig) 60 = 6911646775066555 / 36028797018963968"
    and f2: "kellyF (cfg_odds exConfig) 95 = 8097288309619197 / 9007199254740992"
    and f3: "kellyF (cfg_odds exKellyConfig) 60 = - (1801439850948199 / 9007199254740992)"
    by (simp_all add: kellyF_def ex_defs dbl_eval)
  have fr: "kellyFractionOf exKellyTask = 3602879701896397 / 18014398509481984"
    by (simp add: kellyFractionOf_def ex_defs createTask_def dbl_eval)
  have b: "cfg_baseBet exConfig = 100" "cfg_baseBet exKellyConfig = 200" by (simp_all add: ex_defs)
  have p1: "0 < kellyF (cfg_odds exConfig) 60" and p2: "0 < kellyF (cfg_odds exConfig) 95"
    and p3: "kellyF (cfg_odds exKellyConfig) 60 \<le> 0"
    by (simp_all add: f1 f2 f3)
  have pr: "dbl (dbl (9800 * kellyF (cfg_odds exConfig) 60) * kellyFractionOf exKellyTask)
       = 3307330976350207 / 8796093022208"
    by (simp add: f1 fr) (simp add: dbl_eval)
  from kelly_stake_clamped[of exConfig exKellyTask 60 9800] p1
  have "kellyAmount exConfig exKellyTask 60 9800
      = min (max (cfg_baseBet exConfig)
          (of_int \<lfloor>dbl (dbl (9800 * kellyF (cfg_odds exConfig) 60) * kellyFractionOf exKellyTask)\<rfloor>)) 9800"
    by blast
  then have a0: "kellyAmount exConfig exKellyTask 60 9800 = 375"
    by (simp add: pr b floor_rat_numeral_div)
  have ex: "\<lfloor>9800 * (47 / 245) * (2 / 10) :: rat\<rfloor> = 376" by simp
  from kelly_stake_clamped[of exConfig exKellyTask 60 1000] p1
  have "kellyAmount exConfig exKellyTask 60 1000
      = min (max (cfg_baseBet exConfig)
          (of_int \<lfloor>dbl (dbl (1000 * kellyF (cfg_odds exConfig) 60) * kellyFractionOf exKellyTask)\<rfloor>)) 1000"
    by blast
  then have a1: "kellyAmount exConfig exKellyTask 60 1000 = 100"
    by (simp add: f1 fr b) (simp add: dbl_eval)
  from kelly_stake_clamped[of exConfig exKellyTask 95 10000] p2
  have "kellyAmount exConfig exKellyTask 95 10000
      = min (max (cfg_baseBet exConfig)
          (of_int \<lfloor>dbl (dbl (10000 * kellyF (cfg_odds exConfig) 95) * kellyFractionOf exKellyTask)\<rfloor>)) 10000"
    by blast
  then have a2: "kellyAmount exConfig exKellyTask 95 10000 = 1797"
    by (simp add: f2 fr b) (simp add: dbl_eval)
  from kelly_stake_clamped[of exKellyConfig exKellyTask 60 1000] p3
  have "kellyAmount exKellyConfig exKellyTask 60 1000 = min (cfg_baseBet exKellyConfig) 1000"
    by blast
  then have a3: "kellyAmount exKellyConfig exKellyTask 60 1000 = 200" by (simp add: b)
  from f1 pr a0 ex a1 a2 f3 a3 show ?thesis by blast
qed

text \<open>
  The claim as stated (the stake equals the base whenever \<open>f \<le> 0\<close>) fails when the
  bankroll is below the configured base: with odds 1.5 and confidence 60, \<open>f\<close> is
  negative, the base is 200 and the bankroll 150, and the engine places 150 for a task
  created when the base was 100.
\<close>

theorem kelly_stake_below_base_counterexample:
  "kellyF (cfg_odds exKellyConfig) 60 \<le> 0
   \<and> 0 < cfg_baseBet exKellyConfig
   \<and> kellyAmount exKellyConfig exKellyTask 60 150 = 150
   \<and> kellyAmount exKellyConfig exKellyTask 60 150 \<noteq> cfg_baseBet exKellyConfig
   \<and> map amount (bets (engine exKellyConfig [exRule20] [exBlock 25 EVEN SMALL] noDraw
        (exState 150 [] [exKellyTask]))) = [150]"
  by (simp add: ex_defs engine_defs)

lemma placeBet_rejects_duplicate:
  "list_ex (\<lambda>b. targetHeight b = h \<and> ruleId b = rule_id rule \<and> \<not> truthyId (taskId b)) (bets s)
   \<Longrightarrow> placeBet cfg h ty tg amt SRC_MANUAL rule tid s = (False, s)"
  by (simp add: placeBet_def Let_def)

lemma placeBet_ignores_balance:
  "\<not> list_ex (\<lambda>b. targetHeight b = h \<and> ruleId b = rule_id rule \<and> \<not> truthyId (taskId b)) (bets s)
   \<Longrightarrow> fst (placeBet cfg h ty tg amt SRC_MANUAL rule tid s)
       \<and> balance (snd (placeBet cfg h ty tg amt SRC_MANUAL rule tid s)) = dbl (balance s - amt)"
  by (simp add: placeBet_def Let_def)

lemma placeBet_single_rejects_insufficient:
  "currentBal < amt \<Longrightarrow>
   fst (placeBet_single cfg rule h ty tg amt isAuto currentBal (bal, ledger, run)) = False
   \<and> fst (snd (placeBet_single cfg rule h ty tg amt isAuto currentBal (bal, ledger, run))) = bal
   \<and> fst (snd (snd (placeBet_single cfg rule h ty tg amt isAuto currentBal (bal, ledger, run)))) = ledger"
  by (simp add: placeBet_single_def)

text \<open>
  Claim C5 (a manual wager above the bankroll returns \<open>false\<close> and changes nothing) at
  a bankroll of 50 and a stake of 100: \<open>placeBet\<close> of the multi-task component returns
  \<open>true\<close>, appends the wager and leaves the balance at -50. \<open>placeBet\<close> of the
  single-strategy component returns \<open>false\<close> on the same input.
\<close>

theorem placeBet_accepts_stake_above_bankroll:
  "placeBet exConfig 40 PARITY ODD 100 SRC_MANUAL exRule20 None (exState 50 [] [])
     = (True, exState (- 50) [exPendingOdd40\<lparr>taskId := None\<rparr>] [])
   \<and> fst (placeBet_single exConfig exRule20 40 PARITY ODD 100 False 50 (50, [], False)) = False"
  by (simp add: ex_defs placeBet_def placeBet_single_def dbl_eval)

text \<open>
  Claim C4 (a task whose next stake exceeds the bankroll is deactivated instead of
  placing) at a Martingale task with base 100 whose next stake is 400, and a bankroll
  of 150: the bankruptcy test compares the bankroll with the base, the task stays
  active, the wager of 400 is placed and the balance is -250. \<open>placeBet\<close> of the
  single-strategy component refuses the same automatic wager and stops the automatic
  betting.
\<close>

theorem engine_places_stake_above_bankroll:
  "baseBet exMartingaleTask = 100
   \<and> stakeAmount exConfig exMartingaleTask 60 150 = 400
   \<and> engine exConfig [exRule20] [exBlock 25 EVEN SMALL] noDraw (exState 150 [] [exMartingaleTask])
      = exState (- 250) [exPendingOdd40\<lparr>amount := 400\<rparr>] [exMartingaleTask]
   \<and> isActive exMartingaleTask
   \<and> placeBet_single exConfig exRule20 40 PARITY ODD 400 True 150 (150, [], True)
      = (False, 150, [], False)"
  by (simp add: ex_defs engine_defs placeBet_single_def)

end
